theory Spec2Isabelle
  imports Complex_Main "HOL-Library.Word" "HOL-Library.Multiset" "HOL-Library.Monad_Syntax"
begin

unbundle bit_operations_syntax

section \<open>JavaScript numbers that hold integers\<close>

text \<open>
  A JavaScript number is an IEEE 754 double. The generators keep integers in them, so an
  integer-valued double is modelled by the \<open>int\<close> it holds, and every product and sum
  is rounded to the nearest double (53 significant bits, ties to even), as the hardware
  does. Below \<open>2 ^ 53\<close> nothing is rounded. Overflow to infinity does not occur in the
  ranges used here (all magnitudes stay below \<open>2 ^ 64\<close>).
\<close>

function bits :: "nat \<Rightarrow> nat" where
  "bits n = (if n = 0 then 0 else Suc (bits (n div 2)))"
  by pat_completeness auto
termination
  by (relation "measure id") auto

declare bits.simps [simp del]

definition round_to_double :: "int \<Rightarrow> int" where
  "round_to_double n =
     (let a = \<bar>n\<bar>; k = bits (nat a) in
      if k \<le> 53 then n
      else
        let q = 2 ^ (k - 53); m = a div q; r = a mod q;
            m' = (if 2 * r < q then m
                  else if q < 2 * r then m + 1
                  else if even m then m else m + 1)
        in sgn n * (m' * q))"

definition js_mul :: "int \<Rightarrow> int \<Rightarrow> int" where
  "js_mul a b = round_to_double (a * b)"

definition js_add :: "int \<Rightarrow> int \<Rightarrow> int" where
  "js_add a b = round_to_double (a + b)"

text \<open>\<open>x >>> 0\<close> (ToUint32) and \<open>x | 0\<close> (ToInt32) on an integer-valued number.\<close>

definition ToUint32 :: "int \<Rightarrow> int" where
  "ToUint32 n = n mod 2 ^ 32"

definition ToInt32 :: "int \<Rightarrow> int" where
  "ToInt32 n = (n + 2 ^ 31) mod 2 ^ 32 - 2 ^ 31"

text \<open>\<open>a % b\<close> on integers: the sign of the result follows the dividend.\<close>

definition js_rem :: "int \<Rightarrow> int \<Rightarrow> int" where
  "js_rem a b = sgn a * (\<bar>a\<bar> mod \<bar>b\<bar>)"

lemma bits_le_iff: "bits n \<le> k \<longleftrightarrow> n < 2 ^ k"
proof (induction n arbitrary: k rule: bits.induct)
  case (1 n)
  show ?case
  proof (cases "n = 0")
    case True
    then show ?thesis by (simp add: bits.simps)
  next
    case False
    note nz = this
    show ?thesis
    proof (cases k)
      case 0
      with nz show ?thesis by (simp add: bits.simps)
    next
      case (Suc j)
      have "bits n \<le> Suc j \<longleftrightarrow> bits (n div 2) \<le> j"
        using nz by (subst bits.simps) simp
      also have "\<dots> \<longleftrightarrow> n div 2 < 2 ^ j"
        using "1.IH" [OF nz] .
      also have "\<dots> \<longleftrightarrow> n < 2 ^ Suc j"
        by (simp add: less_mult_imp_div_less div_less_iff_less_mult mult.commute)
      finally show ?thesis using Suc by simp
    qed
  qed
qed

lemma round_to_double_exact:
  assumes "\<bar>n\<bar> < 2 ^ 53"
  shows "round_to_double n = n"
proof -
  have "nat \<bar>n\<bar> < 2 ^ 53" using assms by (simp add: nat_less_iff)
  then have "bits (nat \<bar>n\<bar>) \<le> 53" by (simp add: bits_le_iff)
  then show ?thesis by (simp add: round_to_double_def Let_def)
qed

section \<open>Allocating a byte array\<close>

text \<open>
  \<open>new Uint8Array(count)\<close> throws a \<open>RangeError\<close> in three cases: the count is
  negative; the count is above \<open>2 ^ 53 - 1\<close>, the largest index of the language; the
  engine does not allocate that many bytes. The last bound differs between engines and
  with the memory that is left, so it is a parameter \<open>cap\<close>: the largest length that the
  engine allocates when the call is made.
\<close>

datatype error = RangeError | InvalidArgument

definition maxIndex :: int where
  "maxIndex = 9007199254740991"

definition alloc_fails :: "int \<Rightarrow> int \<Rightarrow> bool" where
  "alloc_fails cap cnt \<longleftrightarrow> cnt < 0 \<or> maxIndex < cnt \<or> cap < cnt"

section \<open>lib/entropy.ts: the entropy pool\<close>

record Entropy =
  pool :: "int list"

definition poolSize :: nat where
  "poolSize = 256"

definition Entropy_new :: Entropy where
  "Entropy_new = \<lparr>pool = []\<rparr>"

text \<open>\<open>pool.push(byte & 0xFF); if (pool.length > poolSize) pool.shift()\<close>\<close>

definition addEntropy :: "int \<Rightarrow> Entropy \<Rightarrow> Entropy" where
  "addEntropy byte e =
     (let p = pool e @ [ToInt32 byte AND 255]
      in e\<lparr>pool := (if poolSize < length p then tl p else p)\<rparr>)"

text \<open>
  The timer and \<open>Math.random\<close> are the environment: \<open>timing k\<close> is the value of the
  \<open>k\<close>-th call of \<open>collectTiming\<close> within one \<open>getBytes\<close>, \<open>rnd k\<close> that of
  \<open>collectMathRandom\<close>.
\<close>

fun collect_fresh :: "(nat \<Rightarrow> int) \<Rightarrow> (nat \<Rightarrow> int) \<Rightarrow> nat \<Rightarrow> Entropy \<Rightarrow> Entropy" where
  "collect_fresh timing rnd 0 e = e"
| "collect_fresh timing rnd (Suc i) e =
     (let e1 = collect_fresh timing rnd i e
      in addEntropy (rnd i) (addEntropy (timing i) e1))"

text \<open>The inner loop over the pool, from position \<open>j\<close> on.\<close>

fun mix_pool :: "int list \<Rightarrow> nat \<Rightarrow> nat \<Rightarrow> int \<Rightarrow> int" where
  "mix_pool [] j i mixed = mixed"
| "mix_pool (p # ps) j i mixed =
     mix_pool ps (Suc j) i
       ((ToInt32 (js_add (js_mul (ToInt32 (mixed XOR ToInt32 (js_mul p (int (j + i + 1))))) 31) 17)) AND 255)"

definition getBytes ::
  "int \<Rightarrow> int \<Rightarrow> (nat \<Rightarrow> int) \<Rightarrow> (nat \<Rightarrow> int) \<Rightarrow> Entropy \<Rightarrow> error + (int list \<times> Entropy)" where
  "getBytes cap cnt timing rnd e =
     (if alloc_fails cap cnt then Inl RangeError
      else
        let e' = collect_fresh timing rnd 16 e
        in Inr (map (\<lambda>i. (mix_pool (pool e') 0 i 0 XOR ToInt32 (timing (16 + i))) mod 256)
                  [0..<nat cnt],
                e'))"

lemma addEntropy_length:
  "length (pool e) \<le> poolSize \<Longrightarrow> length (pool (addEntropy b e)) \<le> poolSize"
  by (simp add: addEntropy_def Let_def)

lemma collect_fresh_length:
  "length (pool e) \<le> poolSize \<Longrightarrow> length (pool (collect_fresh t r n e)) \<le> poolSize"
  by (induction n) (simp_all add: Let_def addEntropy_length)

section \<open>\<open>nextInt\<close> and \<open>nextBytes\<close>, as every generator class has them\<close>

text \<open>
  The arguments of \<open>nextInt\<close> and \<open>nextBytes\<close> are integers, as the specification
  has them. \<open>nextInt(max)\<close> is \<open>Math.floor(this.next() * max)\<close> in every class; no
  argument is checked, so the result is always a value. \<open>nextBytes(count)\<close> starts with
  \<open>new Uint8Array(count)\<close> and then stores \<open>nextInt(256)\<close> in each element, which
  keeps the value modulo 256 (ChaCha20 draws its bytes from the keystream instead, see
  below). The numbers that \<open>next()\<close> returns are modelled as reals: the quotient of two
  integers that a double holds exactly is 0 or 1 as a double exactly when the real
  quotient is.
\<close>

definition nextInt_of :: "('g \<Rightarrow> real \<times> 'g) \<Rightarrow> int \<Rightarrow> 'g \<Rightarrow> error + int \<times> 'g" where
  "nextInt_of nxt k g = (let (v, g) = nxt g in Inr (\<lfloor>v * real_of_int k\<rfloor>, g))"



section \<open>lib/entropy.ts and modules/complexity.ts: the linear congruential generator\<close>

record LCG =
  state :: int

definition LCG_a :: int where "LCG_a = 1664525"
definition LCG_c :: int where "LCG_c = 1013904223"
definition LCG_m :: int where "LCG_m = 4294967296"

text \<open>lib/entropy.ts: \<open>state = (a * state + c) >>> 0; return state / m\<close>\<close>

definition LCG_next :: "LCG \<Rightarrow> real \<times> LCG" where
  "LCG_next g =
     (let s = ToUint32 (js_add (js_mul LCG_a (state g)) LCG_c)
      in (real_of_int s / real_of_int LCG_m, g\<lparr>state := s\<rparr>))"

text \<open>modules/complexity.ts: \<open>state = (a * state + c) % m; return state / m\<close>\<close>

definition demo_LCG_next :: "LCG \<Rightarrow> real \<times> LCG" where
  "demo_LCG_next g =
     (let s = js_rem (js_add (js_mul LCG_a (state g)) LCG_c) LCG_m
      in (real_of_int s / real_of_int LCG_m, g\<lparr>state := s\<rparr>))"



lemma LCG_step_exact:
  assumes "0 \<le> s" "s < 2 ^ 32"
  shows "js_add (js_mul LCG_a s) LCG_c = 1664525 * s + 1013904223"
proof -
  have m: "js_mul LCG_a s = 1664525 * s"
    using assms by (simp add: js_mul_def LCG_a_def round_to_double_exact)
  show ?thesis
    using assms by (simp add: m js_add_def LCG_c_def round_to_double_exact)
qed

text \<open>
  C6. For every 32-bit state value, one step of the generator replaces the state by
  \<open>(1664525 * state + 1013904223) mod 2 ^ 32\<close>, computed without any rounding of the
  double-precision product and sum, and \<open>next()\<close> returns the new state divided by
  \<open>2 ^ 32\<close>; in lib/entropy.ts (\<open>>>> 0\<close>) and in modules/complexity.ts (\<open>% m\<close>) alike.
\<close>

theorem LCG_next_recurrence:
  assumes "0 \<le> s" "s < 2 ^ 32"
  shows "LCG_next \<lparr>state = s\<rparr> =
           (real_of_int ((1664525 * s + 1013904223) mod 2 ^ 32) / 2 ^ 32,
            \<lparr>state = (1664525 * s + 1013904223) mod 2 ^ 32\<rparr>)
         \<and> demo_LCG_next \<lparr>state = s\<rparr> = LCG_next \<lparr>state = s\<rparr>"
proof -
  have nn: "0 \<le> 1664525 * s + 1013904223" using assms by simp
  have "js_rem (1664525 * s + 1013904223) LCG_m = (1664525 * s + 1013904223) mod 2 ^ 32"
    using nn by (cases "1664525 * s + 1013904223 = 0") (simp_all add: js_rem_def LCG_m_def sgn_if)
  then show ?thesis
    using assms
    by (simp add: LCG_next_def demo_LCG_next_def LCG_step_exact ToUint32_def LCG_m_def Let_def)
qed

theorem LCG_next_recurrence_witness:
  "(0::int) \<le> 12345 \<and> (12345::int) < 2 ^ 32
   \<and> LCG_next \<lparr>state = 12345\<rparr> = (87628868 / 4294967296, \<lparr>state = 87628868\<rparr>)
   \<and> demo_LCG_next \<lparr>state = 12345\<rparr> = LCG_next \<lparr>state = 12345\<rparr>"
  using LCG_next_recurrence [of 12345] by simp

text \<open>
  C10. The pool never holds more than 256 bytes: a pool within capacity stays within
  capacity after \<open>addEntropy\<close>, which drops the oldest byte when the pool was full, after
  every one of the 32 \<open>addEntropy\<close> calls that \<open>getBytes\<close> makes, and after \<open>getBytes\<close>
  itself; a new pool is empty.
\<close>

theorem pool_never_exceeds_capacity:
  assumes "length (pool e) \<le> 256"
  shows "length (pool (addEntropy b e)) \<le> 256
         \<and> pool (addEntropy b e) =
             (if length (pool e) < 256 then pool e else tl (pool e)) @ [ToInt32 b AND 255]
         \<and> (\<forall>n. length (pool (collect_fresh timing rnd n e)) \<le> 256)
         \<and> (case getBytes cap cnt timing rnd e of
               Inl err \<Rightarrow> cnt < 0 \<or> 9007199254740991 < cnt \<or> cap < cnt
             | Inr (bs, e') \<Rightarrow> length (pool e') \<le> 256 \<and> int (length bs) = cnt)
         \<and> pool Entropy_new = []"
proof -
  have a: "length (pool e) \<le> poolSize" using assms by (simp add: poolSize_def)
  have 1: "length (pool (addEntropy b e)) \<le> 256"
    using addEntropy_length [OF a] by (simp add: poolSize_def)
  have 2: "pool (addEntropy b e) =
             (if length (pool e) < 256 then pool e else tl (pool e)) @ [ToInt32 b AND 255]"
    using assms by (cases "pool e") (auto simp: addEntropy_def Let_def poolSize_def)
  have 4: "\<forall>n. length (pool (collect_fresh timing rnd n e)) \<le> 256"
    using collect_fresh_length [OF a] by (simp add: poolSize_def)
  have 5: "case getBytes cap cnt timing rnd e of
               Inl err \<Rightarrow> cnt < 0 \<or> 9007199254740991 < cnt \<or> cap < cnt
             | Inr (bs, e') \<Rightarrow> length (pool e') \<le> 256 \<and> int (length bs) = cnt"
    using 4 by (auto simp: getBytes_def alloc_fails_def maxIndex_def Let_def)
  show ?thesis using 1 2 4 5 by (simp add: Entropy_new_def)
qed

theorem pool_never_exceeds_capacity_witness:
  "length (pool \<lparr>pool = replicate 256 7\<rparr>) \<le> 256
   \<and> length (pool (addEntropy 511 \<lparr>pool = replicate 256 7\<rparr>)) \<le> 256
   \<and> pool (addEntropy 511 \<lparr>pool = replicate 256 7\<rparr>) = tl (replicate 256 7) @ [255]"
  using pool_never_exceeds_capacity [of "\<lparr>pool = replicate 256 7\<rparr>" 511]
  by (simp add: ToInt32_def)

section \<open>lib/entropy.ts: bytes and hexadecimal text\<close>

text \<open>
  A \<open>Uint8Array\<close> is a list of 8-bit words. \<open>b.toString(16)\<close> writes the digits of
  \<open>b\<close> without leading zeros, \<open>padStart(2, '0')\<close> fills to two characters.
\<close>

definition hexDigits :: string where
  "hexDigits = ''0123456789abcdef''"

function toString16 :: "nat \<Rightarrow> string" where
  "toString16 n =
     (if n < 16 then [hexDigits ! n] else toString16 (n div 16) @ [hexDigits ! (n mod 16)])"
  by pat_completeness auto
termination
  by (relation "measure id") auto

declare toString16.simps [simp del]

definition padStart :: "nat \<Rightarrow> char \<Rightarrow> string \<Rightarrow> string" where
  "padStart n c s = replicate (n - length s) c @ s"

definition toHex :: "8 word list \<Rightarrow> string" where
  "toHex bytes = concat (map (\<lambda>b. padStart 2 CHR ''0'' (toString16 (unat b))) bytes)"

text \<open>
  \<open>parseInt(s, 16)\<close>: leading white space is skipped, then an optional sign and an
  optional \<open>0x\<close> prefix; the longest run of hexadecimal digits is the value, and
  \<open>None\<close> stands for \<open>NaN\<close> when there is no digit. Storing into a
  \<open>Uint8Array\<close> takes the value modulo 256, and \<open>NaN\<close> as 0.
\<close>

definition digitVal :: "char \<Rightarrow> nat option" where
  "digitVal c =
     (let k = (of_char c :: nat) in
      if 48 \<le> k \<and> k \<le> 57 then Some (k - 48)
      else if 97 \<le> k \<and> k \<le> 102 then Some (k - 87)
      else if 65 \<le> k \<and> k \<le> 70 then Some (k - 55)
      else None)"

fun parseDigits :: "string \<Rightarrow> nat option \<Rightarrow> nat option" where
  "parseDigits [] acc = acc"
| "parseDigits (c # cs) acc =
     (case digitVal c of
        None \<Rightarrow> acc
      | Some d \<Rightarrow> parseDigits cs (Some (16 * (case acc of None \<Rightarrow> 0 | Some a \<Rightarrow> a) + d)))"

definition isWhiteSpace :: "char \<Rightarrow> bool" where
  "isWhiteSpace c = ((of_char c :: nat) \<in> {9, 10, 11, 12, 13, 32})"

definition parseInt16 :: "string \<Rightarrow> int option" where
  "parseInt16 s =
     (let s1 = dropWhile isWhiteSpace s;
          neg = (take 1 s1 = ''-'');
          s2 = (if take 1 s1 = ''-'' \<or> take 1 s1 = ''+'' then drop 1 s1 else s1);
          s3 = (if take 2 s2 = ''0x'' \<or> take 2 s2 = ''0X'' then drop 2 s2 else s2)
      in map_option (\<lambda>n. if neg then - int n else int n) (parseDigits s3 None))"

definition ToUint8 :: "int option \<Rightarrow> 8 word" where
  "ToUint8 v = (case v of None \<Rightarrow> 0 | Some n \<Rightarrow> word_of_int n)"

definition slice :: "string \<Rightarrow> nat \<Rightarrow> nat \<Rightarrow> string" where
  "slice s a b = take (b - a) (drop a s)"

definition fromHex :: "string \<Rightarrow> 8 word list" where
  "fromHex hex =
     map (\<lambda>i. ToUint8 (parseInt16 (slice hex (i * 2) (i * 2 + 2)))) [0..<length hex div 2]"


lemma toString16_byte:
  assumes "n < 256"
  shows "padStart 2 CHR ''0'' (toString16 n) = [hexDigits ! (n div 16), hexDigits ! (n mod 16)]"
proof (cases "n < 16")
  case True
  then show ?thesis
    by (simp add: toString16.simps [of n] padStart_def hexDigits_def)
next
  case False
  moreover have "n div 16 < 16" using assms by simp
  ultimately show ?thesis
    by (simp add: toString16.simps [of n] toString16.simps [of "n div 16"] padStart_def)
qed

lemma lt16_cases:
  assumes "d < (16::nat)"
  obtains "d = 0" | "d = 1" | "d = 2" | "d = 3" | "d = 4" | "d = 5" | "d = 6" | "d = 7"
    | "d = 8" | "d = 9" | "d = 10" | "d = 11" | "d = 12" | "d = 13" | "d = 14" | "d = 15"
proof -
  have "d = 0 \<or> d = 1 \<or> d = 2 \<or> d = 3 \<or> d = 4 \<or> d = 5 \<or> d = 6 \<or> d = 7
      \<or> d = 8 \<or> d = 9 \<or> d = 10 \<or> d = 11 \<or> d = 12 \<or> d = 13 \<or> d = 14 \<or> d = 15"
    using assms by arith
  then show thesis using that by blast
qed

lemma hexDigits_props:
  assumes "d < 16"
  shows "digitVal (hexDigits ! d) = Some d"
    and "\<not> isWhiteSpace (hexDigits ! d)"
    and "hexDigits ! d \<notin> {CHR ''-'', CHR ''+'', CHR ''x'', CHR ''X''}"
  using assms
  by (cases d rule: lt16_cases; simp add: hexDigits_def digitVal_def isWhiteSpace_def)+

lemma parseInt16_digits:
  assumes "a < 16" "b < 16"
  shows "parseInt16 [hexDigits ! a, hexDigits ! b] = Some (int (16 * a + b))"
  using hexDigits_props [OF assms(1)] hexDigits_props [OF assms(2)]
  by (simp add: parseInt16_def Let_def)

lemma fromHex_Cons2:
  "fromHex (c1 # c2 # rest) = ToUint8 (parseInt16 [c1, c2]) # fromHex rest"
proof -
  have "[0..<Suc (length rest div 2)] = 0 # map Suc [0..<length rest div 2]"
    by (simp add: upt_conv_Cons map_Suc_upt del: upt_Suc)
  then show ?thesis
    by (simp add: fromHex_def slice_def comp_def del: upt_Suc)
qed

lemma fromHex_byte:
  "fromHex (padStart 2 CHR ''0'' (toString16 (unat (b :: 8 word))) @ rest) = b # fromHex rest"
proof -
  have "unat b < 2 ^ LENGTH(8)" by (rule unsigned_less)
  then have lt: "unat b < 256" by simp
  have d: "unat b div 16 < 16" "unat b mod 16 < 16" using lt by simp_all
  have "16 * (unat b div 16) + unat b mod 16 = unat b" by simp
  then show ?thesis
    by (simp add: toString16_byte [OF lt] fromHex_Cons2 parseInt16_digits [OF d] ToUint8_def
             del: of_nat_add of_nat_mult)
qed

text \<open>
  C9. For every byte sequence \<open>b\<close>, the empty one included, \<open>fromHex (toHex b)\<close> is
  \<open>b\<close>, element for element and in length.
\<close>

theorem fromHex_toHex: "fromHex (toHex b) = b \<and> length (fromHex (toHex b)) = length b"
proof -
  have "fromHex (toHex b) = b"
  proof (induction b)
    case Nil
    then show ?case by (simp add: toHex_def fromHex_def)
  next
    case (Cons x xs)
    then show ?case using fromHex_byte [of x "toHex xs"] by (simp add: toHex_def)
  qed
  then show ?thesis by simp
qed

section \<open>lib/entropy.ts: the ChaCha20 generator\<close>

text \<open>
  A \<open>Uint32Array\<close> is a list of 32-bit words and a \<open>Uint8Array\<close> a list of 8-bit words.
  The bitwise operators of JavaScript work on the 32-bit value of a number and a store
  into a \<open>Uint32Array\<close> keeps the low 32 bits, which is word arithmetic. A shift count
  is taken modulo 32.
\<close>

record ChaCha20 =
  cc_state :: "32 word list"
  cc_buffer :: "8 word list"
  cc_pos :: nat

text \<open>\<open>key[i]\<close> of a seed that is too short is \<open>undefined\<close>, which \<open>|\<close> reads as 0.\<close>

definition key_byte :: "8 word list \<Rightarrow> nat \<Rightarrow> 32 word" where
  "key_byte key k = (if k < length key then ucast (key ! k) else 0)"

definition key_word :: "8 word list \<Rightarrow> nat \<Rightarrow> 32 word" where
  "key_word key i =
     key_byte key (i * 4) OR push_bit 8 (key_byte key (i * 4 + 1))
       OR push_bit 16 (key_byte key (i * 4 + 2)) OR push_bit 24 (key_byte key (i * 4 + 3))"

text \<open>
  The constructor with a seed. \<open>now1\<close> and \<open>now2\<close> are what the two calls of
  \<open>Date.now()\<close> return (milliseconds since 1970). Without a seed the key is
  \<open>new Entropy().getBytes(32)\<close>, which the caller of this model passes as \<open>key\<close>.
\<close>

definition ChaCha20_new :: "8 word list \<Rightarrow> nat \<Rightarrow> nat \<Rightarrow> ChaCha20" where
  "ChaCha20_new key now1 now2 =
     \<lparr>cc_state =
        [0x61707865, 0x3320646e, 0x79622d32, 0x6b206574] @
        map (key_word key) [0..<8] @
        [0, 0, word_of_nat now1, word_of_nat (now2 div 4294967296)],
      cc_buffer = replicate 64 0,
      cc_pos = 64\<rparr>"

definition rotl :: "32 word \<Rightarrow> nat \<Rightarrow> 32 word" where
  "rotl x n = push_bit (n mod 32) x OR drop_bit ((32 - n) mod 32) x"

definition quarterRound :: "32 word list \<Rightarrow> nat \<Rightarrow> nat \<Rightarrow> nat \<Rightarrow> nat \<Rightarrow> 32 word list" where
  "quarterRound x a b c d =
     (let x = x[a := x ! a + x ! b]; x = x[d := rotl (x ! d XOR x ! a) 16];
          x = x[c := x ! c + x ! d]; x = x[b := rotl (x ! b XOR x ! c) 12];
          x = x[a := x ! a + x ! b]; x = x[d := rotl (x ! d XOR x ! a) 8];
          x = x[c := x ! c + x ! d]; x = x[b := rotl (x ! b XOR x ! c) 7]
      in x)"

text \<open>The body of the loop \<open>for (i = 0; i < 10; i++)\<close> and the loop itself.\<close>

definition round_body :: "32 word list \<Rightarrow> 32 word list" where
  "round_body x =
     (let x = quarterRound x 0 4 8 12; x = quarterRound x 1 5 9 13;
          x = quarterRound x 2 6 10 14; x = quarterRound x 3 7 11 15;
          x = quarterRound x 0 5 10 15; x = quarterRound x 1 6 11 12;
          x = quarterRound x 2 7 8 13; x = quarterRound x 3 4 9 14
      in x)"

fun rounds :: "nat \<Rightarrow> 32 word list \<Rightarrow> 32 word list" where
  "rounds 0 x = x"
| "rounds (Suc n) x = round_body (rounds n x)"

text \<open>The loop \<open>for (i = 0; i < 16; i++)\<close> that adds the state and writes the buffer.\<close>

fun fill_buffer :: "nat \<Rightarrow> 32 word list \<Rightarrow> 32 word list \<Rightarrow> 8 word list \<Rightarrow> 8 word list" where
  "fill_buffer 0 x st buf = buf"
| "fill_buffer (Suc i) x st buf =
     (let buf = fill_buffer i x st buf; v = x ! i + st ! i
      in buf[i * 4 := ucast (v AND 0xFF),
             i * 4 + 1 := ucast (drop_bit 8 v AND 0xFF),
             i * 4 + 2 := ucast (drop_bit 16 v AND 0xFF),
             i * 4 + 3 := ucast (drop_bit 24 v AND 0xFF)])"

definition block :: "ChaCha20 \<Rightarrow> ChaCha20" where
  "block s =
     (let x = rounds 10 (cc_state s);
          buf = fill_buffer 16 x (cc_state s) (cc_buffer s);
          st = (cc_state s)[12 := cc_state s ! 12 + 1];
          st = (if st ! 12 = 0 then st[13 := st ! 13 + 1] else st)
      in s\<lparr>cc_state := st, cc_buffer := buf, cc_pos := 0\<rparr>)"

definition nextByte :: "ChaCha20 \<Rightarrow> 8 word \<times> ChaCha20" where
  "nextByte s =
     (let s = (if 64 \<le> cc_pos s then block s else s)
      in (cc_buffer s ! cc_pos s, s\<lparr>cc_pos := cc_pos s + 1\<rparr>))"

text \<open>
  The loop of \<open>nextBytes\<close>, after the allocation \<open>new Uint8Array(count)\<close> with its
  three ways to fail. \<open>next()\<close> draws its four bytes with \<open>nextBytes(4)\<close>, an
  allocation that every engine makes, so it runs the loop.
\<close>

fun draw_bytes :: "nat \<Rightarrow> ChaCha20 \<Rightarrow> 8 word list \<times> ChaCha20" where
  "draw_bytes 0 s = ([], s)"
| "draw_bytes (Suc n) s =
     (let (bs, s) = draw_bytes n s; (b, s) = nextByte s in (bs @ [b], s))"

definition ChaCha20_nextBytes ::
  "int \<Rightarrow> int \<Rightarrow> ChaCha20 \<Rightarrow> error + (8 word list \<times> ChaCha20)" where
  "ChaCha20_nextBytes cap cnt s =
     (if alloc_fails cap cnt then Inl RangeError else Inr (draw_bytes (nat cnt) s))"

definition ChaCha20_raw :: "ChaCha20 \<Rightarrow> 32 word \<times> ChaCha20" where
  "ChaCha20_raw s =
     (let (b, s) = draw_bytes 4 s
      in (ucast (b ! 0) OR push_bit 8 (ucast (b ! 1)) OR push_bit 16 (ucast (b ! 2))
            OR push_bit 24 (ucast (b ! 3)), s))"

definition ChaCha20_next :: "ChaCha20 \<Rightarrow> real \<times> ChaCha20" where
  "ChaCha20_next s = (let (w, s) = ChaCha20_raw s in (real_of_int (uint w) / 4294967295, s))"

definition ChaCha20_nextInt :: "int \<Rightarrow> ChaCha20 \<Rightarrow> error + int \<times> ChaCha20" where
  "ChaCha20_nextInt = nextInt_of ChaCha20_next"

subsection \<open>The block function as the specification words it\<close>

definition spec_quarter :: "32 word \<times> 32 word \<times> 32 word \<times> 32 word \<Rightarrow> 32 word \<times> 32 word \<times> 32 word \<times> 32 word" where
  "spec_quarter q =
     (case q of (a, b, c, d) \<Rightarrow>
        let a = a + b; d = word_rotl 16 (d XOR a);
            c = c + d; b = word_rotl 12 (b XOR c);
            a = a + b; d = word_rotl 8 (d XOR a);
            c = c + d; b = word_rotl 7 (b XOR c)
        in (a, b, c, d))"

definition spec_quarter_at :: "nat \<times> nat \<times> nat \<times> nat \<Rightarrow> 32 word list \<Rightarrow> 32 word list" where
  "spec_quarter_at p x =
     (case p of (i, j, k, l) \<Rightarrow>
        case spec_quarter (x ! i, x ! j, x ! k, x ! l) of (a, b, c, d) \<Rightarrow>
          x[i := a, j := b, k := c, l := d])"

definition spec_columns :: "(nat \<times> nat \<times> nat \<times> nat) list" where
  "spec_columns = [(0, 4, 8, 12), (1, 5, 9, 13), (2, 6, 10, 14), (3, 7, 11, 15)]"

definition spec_diagonals :: "(nat \<times> nat \<times> nat \<times> nat) list" where
  "spec_diagonals = [(0, 5, 10, 15), (1, 6, 11, 12), (2, 7, 8, 13), (3, 4, 9, 14)]"

definition spec_double_round :: "32 word list \<Rightarrow> 32 word list" where
  "spec_double_round x = foldl (\<lambda>x p. spec_quarter_at p x) x (spec_columns @ spec_diagonals)"

definition le_bytes :: "32 word \<Rightarrow> 8 word list" where
  "le_bytes w = map (\<lambda>k. word_of_nat (unat w div 256 ^ k mod 256)) [0..<4]"

definition spec_keystream :: "32 word list \<Rightarrow> 8 word list" where
  "spec_keystream st =
     concat (map le_bytes (map2 (+) ((spec_double_round ^^ 10) st) st))"

text \<open>Word 12 counts blocks; a carry out of it goes into word 13.\<close>

definition spec_counter_inc :: "32 word list \<Rightarrow> 32 word list" where
  "spec_counter_inc st =
     (let n = unat (st ! 12) + 1
      in st[12 := word_of_nat (n mod 2 ^ 32), 13 := st ! 13 + word_of_nat (n div 2 ^ 32)])"

definition spec_block :: "32 word list \<Rightarrow> ChaCha20" where
  "spec_block st = \<lparr>cc_state = spec_counter_inc st, cc_buffer = spec_keystream st, cc_pos = 0\<rparr>"




subsection \<open>Evaluating the block function\<close>

text \<open>
  A quarter round on the four words it touches. On a state written out as sixteen words
  \<open>quarterRound\<close> is \<open>qr4\<close> on four of them, for each of the eight index patterns
  of the loop body.
\<close>

definition qr4 :: "32 word \<Rightarrow> 32 word \<Rightarrow> 32 word \<Rightarrow> 32 word \<Rightarrow> 32 word \<times> 32 word \<times> 32 word \<times> 32 word" where
  "qr4 a b c d =
     (let a = a + b; d = rotl (d XOR a) 16;
          c = c + d; b = rotl (b XOR c) 12;
          a = a + b; d = rotl (d XOR a) 8;
          c = c + d; b = rotl (b XOR c) 7
      in (a, b, c, d))"

lemma list_update_Cons_numeral:
  "(x # xs)[numeral v := y] = x # xs[numeral v - 1 := y]"
  by (simp add: numeral_eq_Suc)

lemma quarterRound_0_4_8_12:
  "quarterRound [x0, x1, x2, x3, x4, x5, x6, x7, x8, x9, x10, x11, x12, x13, x14, x15] 0 4 8 12 =
     (case qr4 x0 x4 x8 x12 of (a, b, c, d) \<Rightarrow>
        [a, x1, x2, x3, b, x5, x6, x7, c, x9, x10, x11, d, x13, x14, x15])"
  by (simp add: quarterRound_def qr4_def Let_def list_update_Cons_numeral)

lemma quarterRound_1_5_9_13:
  "quarterRound [x0, x1, x2, x3, x4, x5, x6, x7, x8, x9, x10, x11, x12, x13, x14, x15] (Suc 0) 5 9 13 =
     (case qr4 x1 x5 x9 x13 of (a, b, c, d) \<Rightarrow>
        [x0, a, x2, x3, x4, b, x6, x7, x8, c, x10, x11, x12, d, x14, x15])"
  by (simp add: quarterRound_def qr4_def Let_def list_update_Cons_numeral)

lemma quarterRound_2_6_10_14:
  "quarterRound [x0, x1, x2, x3, x4, x5, x6, x7, x8, x9, x10, x11, x12, x13, x14, x15] 2 6 10 14 =
     (case qr4 x2 x6 x10 x14 of (a, b, c, d) \<Rightarrow>
        [x0, x1, a, x3, x4, x5, b, x7, x8, x9, c, x11, x12, x13, d, x15])"
  by (simp add: quarterRound_def qr4_def Let_def list_update_Cons_numeral)

lemma quarterRound_3_7_11_15:
  "quarterRound [x0, x1, x2, x3, x4, x5, x6, x7, x8, x9, x10, x11, x12, x13, x14, x15] 3 7 11 15 =
     (case qr4 x3 x7 x11 x15 of (a, b, c, d) \<Rightarrow>
        [x0, x1, x2, a, x4, x5, x6, b, x8, x9, x10, c, x12, x13, x14, d])"
  by (simp add: quarterRound_def qr4_def Let_def list_update_Cons_numeral)

lemma quarterRound_0_5_10_15:
  "quarterRound [x0, x1, x2, x3, x4, x5, x6, x7, x8, x9, x10, x11, x12, x13, x14, x15] 0 5 10 15 =
     (case qr4 x0 x5 x10 x15 of (a, b, c, d) \<Rightarrow>
        [a, x1, x2, x3, x4, b, x6, x7, x8, x9, c, x11, x12, x13, x14, d])"
  by (simp add: quarterRound_def qr4_def Let_def list_update_Cons_numeral)

lemma quarterRound_1_6_11_12:
  "quarterRound [x0, x1, x2, x3, x4, x5, x6, x7, x8, x9, x10, x11, x12, x13, x14, x15] (Suc 0) 6 11 12 =
     (case qr4 x1 x6 x11 x12 of (a, b, c, d) \<Rightarrow>
        [x0, a, x2, x3, x4, x5, b, x7, x8, x9, x10, c, d, x13, x14, x15])"
  by (simp add: quarterRound_def qr4_def Let_def list_update_Cons_numeral)

lemma quarterRound_2_7_8_13:
  "quarterRound [x0, x1, x2, x3, x4, x5, x6, x7, x8, x9, x10, x11, x12, x13, x14, x15] 2 7 8 13 =
     (case qr4 x2 x7 x8 x13 of (a, b, c, d) \<Rightarrow>
        [x0, x1, a, x3, x4, x5, x6, b, c, x9, x10, x11, x12, d, x14, x15])"
  by (simp add: quarterRound_def qr4_def Let_def list_update_Cons_numeral)

lemma quarterRound_3_4_9_14:
  "quarterRound [x0, x1, x2, x3, x4, x5, x6, x7, x8, x9, x10, x11, x12, x13, x14, x15] 3 4 9 14 =
     (case qr4 x3 x4 x9 x14 of (a, b, c, d) \<Rightarrow>
        [x0, x1, x2, a, b, x5, x6, x7, x8, c, x10, x11, x12, x13, d, x15])"
  by (simp add: quarterRound_def qr4_def Let_def list_update_Cons_numeral)

lemmas quarterRound_explicit =
  quarterRound_0_4_8_12 quarterRound_1_5_9_13 quarterRound_2_6_10_14 quarterRound_3_7_11_15
  quarterRound_0_5_10_15 quarterRound_1_6_11_12 quarterRound_2_7_8_13 quarterRound_3_4_9_14

text \<open>Word numerals are kept below \<open>2 ^ 32\<close> while evaluating.\<close>

lemma word_of_nat_mod32: "(word_of_nat (m mod 4294967296) :: 32 word) = word_of_nat m"
  by (simp add: word_of_nat_eq_iff take_bit_eq_mod)

lemma word32_normalize:
  "4294967296 \<le> (numeral n :: nat) \<Longrightarrow>
     (numeral n :: 32 word) = word_of_nat (numeral n mod 4294967296)"
  by (simp only: word_of_nat_mod32 of_nat_numeral)

lemma rounds_numeral: "rounds (numeral v) x = round_body (rounds (pred_numeral v) x)"
  by (simp add: numeral_eq_Suc)

lemmas ChaCha20_eval =
  rounds_numeral round_body_def quarterRound_explicit qr4_def rotl_def Let_def word32_normalize

subsection \<open>The block function is the one of the specification\<close>

lemma rotl_eq_word_rotl:
  assumes "n < 32"
  shows "rotl x n = word_rotl n x"
proof (cases "n = 0")
  case True
  have "word_rotl 0 x = x"
    by (rule bit_word_eqI) (simp add: bit_simps)
  with True show ?thesis by (simp add: rotl_def)
next
  case False
  then have n: "0 < n" by simp
  show ?thesis
  proof (rule bit_word_eqI)
    fix k
    assume "k < LENGTH(32)"
    then have k: "k < 32" by simp
    have s: "(32 - n) mod 32 = 32 - n" using n by simp
    have L: "bit (rotl x n) k \<longleftrightarrow> (n \<le> k \<and> bit x (k - n)) \<or> bit x (32 - n + k)"
      using k assms unfolding rotl_def s by (simp add: bit_simps)
    have R: "bit (word_rotl n x) k \<longleftrightarrow> bit x ((k + (32 - n)) mod 32)"
      using k assms by (simp add: bit_simps)
    show "bit (rotl x n) k \<longleftrightarrow> bit (word_rotl n x) k"
    proof (cases "n \<le> k")
      case True
      then have m: "(k + (32 - n)) mod 32 = k - n"
        using k assms by (simp add: mod_if)
      have "\<not> bit x (32 - n + k)"
      proof
        assume "bit x (32 - n + k)"
        then have "32 - n + k < LENGTH(32)" by (rule bit_imp_le_length)
        with True assms show False by simp
      qed
      with True show ?thesis unfolding L R m by simp
    next
      case False
      then have m: "(k + (32 - n)) mod 32 = 32 - n + k"
        using k assms by simp
      from False show ?thesis unfolding L R m by simp
    qed
  qed
qed

lemma spec_quarter_qr4: "spec_quarter (a, b, c, d) = qr4 a b c d"
  by (simp add: spec_quarter_def qr4_def rotl_eq_word_rotl)

lemma length_quarterRound [simp]: "length (quarterRound x a b c d) = length x"
  by (simp add: quarterRound_def Let_def)

lemma length_16_explicit:
  assumes "length (x :: 'a list) = 16"
  obtains x0 x1 x2 x3 x4 x5 x6 x7 x8 x9 x10 x11 x12 x13 x14 x15
  where "x = [x0, x1, x2, x3, x4, x5, x6, x7, x8, x9, x10, x11, x12, x13, x14, x15]"
  using assms by (auto simp: numeral_eq_Suc length_Suc_conv)

lemma spec_quarter_at_quarterRound:
  assumes "length x = 16"
  shows "spec_quarter_at (0, 4, 8, 12) x = quarterRound x 0 4 8 12"
    and "spec_quarter_at ((Suc 0), 5, 9, 13) x = quarterRound x (Suc 0) 5 9 13"
    and "spec_quarter_at (2, 6, 10, 14) x = quarterRound x 2 6 10 14"
    and "spec_quarter_at (3, 7, 11, 15) x = quarterRound x 3 7 11 15"
    and "spec_quarter_at (0, 5, 10, 15) x = quarterRound x 0 5 10 15"
    and "spec_quarter_at ((Suc 0), 6, 11, 12) x = quarterRound x (Suc 0) 6 11 12"
    and "spec_quarter_at (2, 7, 8, 13) x = quarterRound x 2 7 8 13"
    and "spec_quarter_at (3, 4, 9, 14) x = quarterRound x 3 4 9 14"
  by (rule length_16_explicit [OF assms];
      simp add: spec_quarter_at_def spec_quarter_qr4 quarterRound_explicit list_update_Cons_numeral
           split: prod.split)+

lemma round_body_spec:
  assumes "length x = 16"
  shows "round_body x = spec_double_round x"
  using assms
  by (simp add: round_body_def spec_double_round_def spec_columns_def spec_diagonals_def
        spec_quarter_at_quarterRound)

lemma length_round_body: "length (round_body x) = length x"
  by (simp add: round_body_def)

lemma length_rounds [simp]: "length (rounds n x) = length x"
  by (induction n) (simp_all add: length_round_body)

lemma rounds_spec:
  assumes "length x = 16"
  shows "rounds n x = (spec_double_round ^^ n) x"
proof (induction n)
  case 0
  show ?case by simp
next
  case (Suc n)
  have "rounds (Suc n) x = spec_double_round (rounds n x)"
    using assms by (simp add: round_body_spec)
  with Suc show ?case by simp
qed

lemma byte_of_word:
  "(ucast (drop_bit n w AND 0xFF) :: 8 word) = word_of_nat (unat w div 2 ^ n mod 256)"
  for w :: "32 word"
proof -
  have m: "(0xFF :: 32 word) = mask 8"
    by (simp add: mask_eq_exp_minus_1)
  have d: "unat w div 2 ^ n mod 256 = take_bit 8 (drop_bit n (unat w))"
    by (simp add: take_bit_eq_mod drop_bit_eq_div)
  show ?thesis
    unfolding m d by (rule bit_word_eqI) (auto simp: bit_simps)
qed

lemma le_bytes_eq:
  "le_bytes w = [ucast (w AND 0xFF), ucast (drop_bit 8 w AND 0xFF),
                 ucast (drop_bit 16 w AND 0xFF), ucast (drop_bit 24 w AND 0xFF)]"
proof -
  have u: "[0..<4] = [0, 1, 2, 3::nat]"
    by (simp add: upt_conv_Cons)
  show ?thesis
    using byte_of_word [of 0 w] byte_of_word [of 8 w] byte_of_word [of 16 w] byte_of_word [of 24 w]
    by (simp add: le_bytes_def u)
qed

lemma length_fill_buffer [simp]: "length (fill_buffer i x st buf) = length buf"
  by (induction i) (simp_all add: Let_def)

lemma take_update4:
  assumes "n + 4 \<le> length xs"
  shows "take (n + 4) (xs[n := a, n + 1 := b, n + 2 := c, n + 3 := d]) = take n xs @ [a, b, c, d]"
proof -
  have e: "n + 1 = Suc n" "n + 2 = Suc (Suc n)" "n + 3 = Suc (Suc (Suc n))"
    "n + 4 = Suc (Suc (Suc (Suc n)))" by simp_all
  show ?thesis
    unfolding e using assms by (simp add: take_Suc_conv_app_nth nth_list_update)
qed

lemma fill_buffer_take:
  assumes "4 * i \<le> length buf"
  shows "take (4 * i) (fill_buffer i x st buf) = concat (map (\<lambda>j. le_bytes (x ! j + st ! j)) [0..<i])"
  using assms
proof (induction i)
  case 0
  show ?case by simp
next
  case (Suc i)
  then have len: "i * 4 + 4 \<le> length (fill_buffer i x st buf)" by simp
  have IH: "take (i * 4) (fill_buffer i x st buf) = concat (map (\<lambda>j. le_bytes (x ! j + st ! j)) [0..<i])"
    using Suc by (simp add: mult.commute)
  have e: "4 * Suc i = i * 4 + 4" by simp
  have "take (4 * Suc i) (fill_buffer (Suc i) x st buf) =
          take (i * 4) (fill_buffer i x st buf) @ le_bytes (x ! i + st ! i)"
    unfolding e fill_buffer.simps Let_def le_bytes_eq by (rule take_update4 [OF len])
  then show ?case using IH by simp
qed

lemma fill_buffer_spec:
  assumes "length x = 16" "length st = 16" "length buf = 64"
  shows "fill_buffer 16 x st buf = concat (map le_bytes (map2 (+) x st))"
proof -
  have "fill_buffer 16 x st buf = take (4 * 16) (fill_buffer 16 x st buf)"
    using assms by simp
  also have "\<dots> = concat (map (\<lambda>j. le_bytes (x ! j + st ! j)) [0..<16])"
    using assms by (intro fill_buffer_take) simp
  also have "map (\<lambda>j. le_bytes (x ! j + st ! j)) [0..<16] = map le_bytes (map2 (+) x st)"
    using assms by (intro nth_equalityI) simp_all
  finally show ?thesis .
qed

lemma counter_spec:
  assumes "length st = 16"
  shows "(let st' = st[12 := st ! 12 + 1]
          in if st' ! 12 = 0 then st'[13 := st' ! 13 + 1] else st') = spec_counter_inc st"
proof -
  define u where "u = unat (st ! 12)"
  have lt: "u < 4294967296"
    using unsigned_less [of "st ! 12", where 'a = nat] by (simp add: u_def)
  have un: "unat (st ! 12 + 1) = (u + 1) mod 4294967296"
    by (simp add: unat_word_ariths u_def)
  have w: "(word_of_nat (u + 1) :: 32 word) = st ! 12 + 1"
    by (simp add: u_def)
  show ?thesis
  proof (cases "u + 1 < 4294967296")
    case True
    then have "unat (st ! 12 + 1) \<noteq> 0" using un by simp
    then have nz: "st ! 12 + 1 \<noteq> 0" by auto
    have "(u + 1) mod 4294967296 = u + 1" "(u + 1) div 4294967296 = 0"
      using True by simp_all
    then have "spec_counter_inc st = st[12 := st ! 12 + 1, 13 := st ! 13]"
      unfolding spec_counter_inc_def Let_def u_def [symmetric] using w by (simp add: add.commute)
    also have "\<dots> = st[12 := st ! 12 + 1]"
      using assms by (simp add: list_update_same_conv)
    finally show ?thesis using nz assms by (simp add: Let_def)
  next
    case False
    with lt have e: "u + 1 = 4294967296" by simp
    then have "unat (st ! 12 + 1) = 0" using un by simp
    then have z: "st ! 12 + 1 = 0" by (simp add: unsigned_eq_0_iff)
    have "(u + 1) mod 4294967296 = 0" "(u + 1) div 4294967296 = 1"
      using e by simp_all
    then have "spec_counter_inc st = st[12 := 0, 13 := st ! 13 + 1]"
      unfolding spec_counter_inc_def Let_def u_def [symmetric] by simp
    then show ?thesis using z assms by (simp add: Let_def)
  qed
qed

text \<open>
  The block function of lib/entropy.ts copies the sixteen state words, applies ten double
  rounds (four column quarter rounds, then four diagonal ones, each an add-rotate-xor
  sequence with rotations by 16, 12, 8 and 7), adds the state it started from word by word
  modulo \<open>2 ^ 32\<close>, writes the sixteen sums in little-endian order into the 64-byte
  buffer and then increments word 12, with a carry into word 13.
\<close>

lemma block_spec_block:
  assumes "length (cc_state s) = 16" "length (cc_buffer s) = 64"
  shows "block s = spec_block (cc_state s)"
proof -
  have x: "rounds 10 (cc_state s) = (spec_double_round ^^ 10) (cc_state s)"
    using assms(1) by (rule rounds_spec)
  have "fill_buffer 16 (rounds 10 (cc_state s)) (cc_state s) (cc_buffer s) =
          concat (map le_bytes (map2 (+) (rounds 10 (cc_state s)) (cc_state s)))"
    using assms by (intro fill_buffer_spec) simp_all
  then have buf: "fill_buffer 16 (rounds 10 (cc_state s)) (cc_state s) (cc_buffer s) =
          spec_keystream (cc_state s)"
    by (simp add: spec_keystream_def x)
  have r: "s\<lparr>cc_state := a, cc_buffer := b, cc_pos := c\<rparr> =
           \<lparr>cc_state = a, cc_buffer = b, cc_pos = c\<rparr>" for a b c
    by (cases s) simp
  show ?thesis
    using counter_spec [OF assms(1)] assms
    by (simp add: block_def spec_block_def buf r Let_def)
qed

subsection \<open>modules/complexity.ts: the block function of ChaCha20CSPRNG\<close>

text \<open>
  The second stream-cipher generator keeps its block counter in a field of its own, a
  \<open>bigint\<close>, next to the sixteen state words; words 13 to 15 hold the nonce.
  \<open>bytes[offset]\<close> past the end of the array is \<open>undefined\<close>, which \<open>|\<close> reads as 0.
\<close>

record ChaCha20CSPRNG =
  csp_state :: "32 word list"
  csp_counter :: int
  csp_buffer :: "8 word list"
  csp_bufferIndex :: nat

definition bytesToWord :: "8 word list \<Rightarrow> nat \<Rightarrow> 32 word" where
  "bytesToWord bytes offset =
     key_byte bytes offset OR push_bit 8 (key_byte bytes (offset + 1))
       OR push_bit 16 (key_byte bytes (offset + 2)) OR push_bit 24 (key_byte bytes (offset + 3))"

text \<open>
  The constructor and \<open>initState\<close> that it calls. Without arguments the key and the
  nonce are \<open>crypto.randomBytes(32)\<close> and \<open>crypto.randomBytes(12)\<close>, which the caller
  of this model passes as \<open>key\<close> and \<open>nonce\<close>.
\<close>

definition initState :: "8 word list \<Rightarrow> 8 word list \<Rightarrow> 32 word list \<Rightarrow> 32 word list" where
  "initState key nonce st =
     (let st = st[0 := 0x61707865, 1 := 0x3320646e, 2 := 0x79622d32, 3 := 0x6b206574];
          st = foldl (\<lambda>st i. st[4 + i := bytesToWord key (i * 4)]) st [0..<8];
          st = st[12 := 0]; st = st[13 := 0];
          st = st[13 := bytesToWord nonce 0];
          st = st[14 := bytesToWord nonce 4];
          st = st[15 := bytesToWord nonce 8]
      in st)"

definition ChaCha20CSPRNG_new :: "8 word list \<Rightarrow> 8 word list \<Rightarrow> ChaCha20CSPRNG" where
  "ChaCha20CSPRNG_new key nonce =
     \<lparr>csp_state = initState key nonce (replicate 16 0), csp_counter = 0,
      csp_buffer = replicate 64 0, csp_bufferIndex = 64\<rparr>"

text \<open>
  \<open>quarterRound\<close> of this class has the exclusive or and the rotation as two statements;
  its \<open>rotl\<close> is the one of lib/entropy.ts.
\<close>

definition csp_quarterRound :: "32 word list \<Rightarrow> nat \<Rightarrow> nat \<Rightarrow> nat \<Rightarrow> nat \<Rightarrow> 32 word list" where
  "csp_quarterRound x a b c d =
     (let x = x[a := x ! a + x ! b]; x = x[d := x ! d XOR x ! a]; x = x[d := rotl (x ! d) 16];
          x = x[c := x ! c + x ! d]; x = x[b := x ! b XOR x ! c]; x = x[b := rotl (x ! b) 12];
          x = x[a := x ! a + x ! b]; x = x[d := x ! d XOR x ! a]; x = x[d := rotl (x ! d) 8];
          x = x[c := x ! c + x ! d]; x = x[b := x ! b XOR x ! c]; x = x[b := rotl (x ! b) 7]
      in x)"

definition csp_round_body :: "32 word list \<Rightarrow> 32 word list" where
  "csp_round_body x =
     (let x = csp_quarterRound x 0 4 8 12; x = csp_quarterRound x 1 5 9 13;
          x = csp_quarterRound x 2 6 10 14; x = csp_quarterRound x 3 7 11 15;
          x = csp_quarterRound x 0 5 10 15; x = csp_quarterRound x 1 6 11 12;
          x = csp_quarterRound x 2 7 8 13; x = csp_quarterRound x 3 4 9 14
      in x)"

fun csp_rounds :: "nat \<Rightarrow> 32 word list \<Rightarrow> 32 word list" where
  "csp_rounds 0 x = x"
| "csp_rounds (Suc n) x = csp_round_body (csp_rounds n x)"

text \<open>The loop \<open>working[i] = (working[i] + this.state[i]) >>> 0\<close>.\<close>

fun add_state :: "nat \<Rightarrow> 32 word list \<Rightarrow> 32 word list \<Rightarrow> 32 word list" where
  "add_state 0 w st = w"
| "add_state (Suc i) w st = (let w = add_state i w st in w[i := w ! i + st ! i])"

text \<open>
  The loop that writes the buffer. It shifts with \<open>>>\<close>, which reads the word as a
  signed number and keeps the sign.
\<close>

fun write_bytes :: "nat \<Rightarrow> 32 word list \<Rightarrow> 8 word list \<Rightarrow> 8 word list" where
  "write_bytes 0 w buf = buf"
| "write_bytes (Suc i) w buf =
     (let buf = write_bytes i w buf; word = w ! i
      in buf[i * 4 := ucast (word AND 0xFF),
             i * 4 + 1 := ucast (signed_drop_bit 8 word AND 0xFF),
             i * 4 + 2 := ucast (signed_drop_bit 16 word AND 0xFF),
             i * 4 + 3 := ucast (signed_drop_bit 24 word AND 0xFF)])"

text \<open>
  \<open>generateBlock\<close>: word 12 is set from the counter field before the state is copied, and
  the counter field is incremented at the end. No statement writes word 13.
\<close>

definition generateBlock :: "ChaCha20CSPRNG \<Rightarrow> ChaCha20CSPRNG" where
  "generateBlock g =
     (let st = (csp_state g)[12 := word_of_int (csp_counter g AND 0xFFFFFFFF)];
          working = csp_rounds 10 st;
          working = add_state 16 working st;
          buf = write_bytes 16 working (csp_buffer g)
      in g\<lparr>csp_state := st, csp_buffer := buf, csp_counter := csp_counter g + 1,
            csp_bufferIndex := 0\<rparr>)"

subsection \<open>The block function of modules/complexity.ts\<close>

lemma csp_quarterRound_eq:
  assumes "length x = 16"
  shows "csp_quarterRound x 0 4 8 12 = quarterRound x 0 4 8 12"
    and "csp_quarterRound x (Suc 0) 5 9 13 = quarterRound x (Suc 0) 5 9 13"
    and "csp_quarterRound x 2 6 10 14 = quarterRound x 2 6 10 14"
    and "csp_quarterRound x 3 7 11 15 = quarterRound x 3 7 11 15"
    and "csp_quarterRound x 0 5 10 15 = quarterRound x 0 5 10 15"
    and "csp_quarterRound x (Suc 0) 6 11 12 = quarterRound x (Suc 0) 6 11 12"
    and "csp_quarterRound x 2 7 8 13 = quarterRound x 2 7 8 13"
    and "csp_quarterRound x 3 4 9 14 = quarterRound x 3 4 9 14"
  by (rule length_16_explicit [OF assms];
      simp add: csp_quarterRound_def quarterRound_def Let_def list_update_Cons_numeral
           cong: let_weak_cong)+

lemma csp_round_body_eq:
  assumes "length x = 16"
  shows "csp_round_body x = round_body x"
  using assms by (simp add: csp_round_body_def round_body_def csp_quarterRound_eq)

lemma csp_rounds_eq:
  assumes "length x = 16"
  shows "csp_rounds n x = rounds n x"
proof (induction n)
  case 0
  show ?case by simp
next
  case (Suc n)
  have "csp_round_body (rounds n x) = round_body (rounds n x)"
    using assms by (intro csp_round_body_eq) simp
  with Suc show ?case by simp
qed

lemma length_add_state [simp]: "length (add_state i w st) = length w"
  by (induction i) (simp_all add: Let_def)

lemma add_state_nth:
  assumes "k < length w"
  shows "add_state i w st ! k = (if k < i then w ! k + st ! k else w ! k)"
  using assms by (induction i) (auto simp: Let_def nth_list_update less_Suc_eq)

lemma signed_shift_byte:
  fixes w :: "32 word"
  assumes "n \<le> 24"
  shows "signed_drop_bit n w AND 0xFF = drop_bit n w AND 0xFF"
proof -
  have m: "(0xFF :: 32 word) = mask 8"
    by (simp add: mask_eq_exp_minus_1)
  show ?thesis
    unfolding m using assms
    by (intro bit_word_eqI) (auto simp: bit_simps bit_signed_drop_bit_iff)
qed

lemma length_write_bytes [simp]: "length (write_bytes i w buf) = length buf"
  by (induction i) (simp_all add: Let_def)

lemma write_bytes_fill_buffer:
  assumes "i \<le> 16" "length x = 16"
  shows "write_bytes i (add_state 16 x st) buf = fill_buffer i x st buf"
  using assms(1)
proof (induction i)
  case 0
  show ?case by simp
next
  case (Suc i)
  then have i: "i < 16" by simp
  have w: "add_state 16 x st ! i = x ! i + st ! i"
    using i assms(2) by (simp add: add_state_nth)
  show ?case
    using Suc by (simp add: Let_def w signed_shift_byte del: add_state.simps)
qed

lemma counter_word: "(word_of_int (c AND 0xFFFFFFFF) :: 32 word) = word_of_int c"
proof -
  have "(0xFFFFFFFF :: int) = mask 32"
    by (simp add: mask_eq_exp_minus_1)
  then have "c AND 0xFFFFFFFF = take_bit 32 c"
    by (simp add: take_bit_eq_mask)
  then show ?thesis
    by (simp add: word_of_int_eq_iff)
qed

lemma generateBlock_spec:
  assumes "length (csp_state g) = 16" "length (csp_buffer g) = 64"
  shows "generateBlock g =
     \<lparr>csp_state = (csp_state g)[12 := word_of_int (csp_counter g)],
      csp_counter = csp_counter g + 1,
      csp_buffer = spec_keystream ((csp_state g)[12 := word_of_int (csp_counter g)]),
      csp_bufferIndex = 0\<rparr>"
proof -
  define st where "st = (csp_state g)[12 := word_of_int (csp_counter g)]"
  have len: "length st = 16" using assms by (simp add: st_def)
  have x: "csp_rounds 10 st = (spec_double_round ^^ 10) st"
    using len by (simp add: csp_rounds_eq rounds_spec)
  have "write_bytes 16 (add_state 16 (csp_rounds 10 st) st) (csp_buffer g) =
          fill_buffer 16 (csp_rounds 10 st) st (csp_buffer g)"
    using len by (intro write_bytes_fill_buffer) (simp_all add: csp_rounds_eq)
  also have "\<dots> = concat (map le_bytes (map2 (+) (csp_rounds 10 st) st))"
    using len assms by (intro fill_buffer_spec) (simp_all add: csp_rounds_eq)
  finally have buf: "write_bytes 16 (add_state 16 (csp_rounds 10 st) st) (csp_buffer g) =
          spec_keystream st"
    by (simp add: spec_keystream_def x)
  have r: "g\<lparr>csp_state := a, csp_buffer := b, csp_counter := c, csp_bufferIndex := d\<rparr> =
           \<lparr>csp_state = a, csp_counter = c, csp_buffer = b, csp_bufferIndex = d\<rparr>" for a b c d
    by (cases g) simp
  show ?thesis
    unfolding generateBlock_def counter_word st_def [symmetric] Let_def buf r by (rule refl)
qed

lemma length_generateBlock:
  "length (csp_state (generateBlock g)) = length (csp_state g)"
  "length (csp_buffer (generateBlock g)) = length (csp_buffer g)"
  by (simp_all add: generateBlock_def Let_def)

lemma csp_state_generateBlock:
  "csp_state (generateBlock g) = (csp_state g)[12 := word_of_int (csp_counter g)]"
  "csp_counter (generateBlock g) = csp_counter g + 1"
  by (simp_all add: generateBlock_def Let_def counter_word)

text \<open>After \<open>n\<close> blocks word 12 holds \<open>n - 1\<close> and the other words are what they were.\<close>

lemma generateBlock_funpow:
  "csp_counter ((generateBlock ^^ n) g) = csp_counter g + int n"
  "csp_state ((generateBlock ^^ Suc n) g) =
     (csp_state g)[12 := word_of_int (csp_counter g + int n)]"
proof -
  show c: "csp_counter ((generateBlock ^^ n) g) = csp_counter g + int n" for n
    by (induction n) (simp_all add: csp_state_generateBlock)
  show "csp_state ((generateBlock ^^ Suc n) g) =
     (csp_state g)[12 := word_of_int (csp_counter g + int n)]"
    by (induction n) (simp_all add: csp_state_generateBlock c ac_simps)
qed

lemma initState_fill:
  "csp_state (ChaCha20CSPRNG_new (replicate 32 42) (replicate 12 7)) =
     [1634760805, 857760878, 2036477234, 1797285236, 707406378, 707406378,
      707406378, 707406378, 707406378, 707406378, 707406378, 707406378,
      0, 117901063, 117901063, 117901063]"
proof -
  have z: "replicate 16 (0 :: 32 word) = [0, 0, 0, 0, 0, 0, 0, 0, 0, 0, 0, 0, 0, 0, 0, 0]"
    by (simp add: numeral_eq_Suc)
  show ?thesis
    unfolding ChaCha20CSPRNG_new_def initState_def z
    by (simp add: bytesToWord_def key_byte_def upt_conv_Cons list_update_Cons_numeral
          Let_def cong: let_weak_cong)
qed

lemma generateBlock_blocks:
  assumes "0 < n"
  shows "csp_state ((generateBlock ^^ n) g) =
           (csp_state g)[12 := word_of_int (csp_counter g + int n - 1)]"
proof -
  obtain m where n: "n = Suc m"
    using assms by (cases n) simp_all
  show ?thesis
    unfolding n generateBlock_funpow by simp
qed

lemma word32_wraps: "(4294967296 :: 32 word) = 0" "(4294967295 :: 32 word) + 1 = 0"
  by simp_all

text \<open>
  C5 as the specification states it does not hold of \<open>generateBlock\<close>. The first block
  of a new generator leaves word 12 at 0, where the block function of the claim has made
  it 1. After \<open>2 ^ 32\<close> blocks word 12 holds \<open>2 ^ 32 - 1\<close>; the next block sets it to 0
  and leaves word 13, the first word of the nonce, as it was, where a carry would have
  added 1 to it.
\<close>

theorem generateBlock_no_carry:
  "csp_state (generateBlock (ChaCha20CSPRNG_new (replicate 32 42) (replicate 12 7))) ! 12 = 0
   \<and> spec_counter_inc (csp_state (ChaCha20CSPRNG_new (replicate 32 42) (replicate 12 7))) ! 12 = 1
   \<and> csp_state (generateBlock (ChaCha20CSPRNG_new (replicate 32 42) (replicate 12 7))) \<noteq>
       spec_counter_inc (csp_state (ChaCha20CSPRNG_new (replicate 32 42) (replicate 12 7)))
   \<and> csp_state ((generateBlock ^^ 4294967296)
         (ChaCha20CSPRNG_new (replicate 32 42) (replicate 12 7))) ! 12 = 4294967295
   \<and> csp_state ((generateBlock ^^ 4294967296)
         (ChaCha20CSPRNG_new (replicate 32 42) (replicate 12 7))) ! 13 = 117901063
   \<and> csp_state ((generateBlock ^^ 4294967297)
         (ChaCha20CSPRNG_new (replicate 32 42) (replicate 12 7))) ! 12 = 0
   \<and> csp_state ((generateBlock ^^ 4294967297)
         (ChaCha20CSPRNG_new (replicate 32 42) (replicate 12 7))) ! 13 = 117901063
   \<and> spec_counter_inc (csp_state ((generateBlock ^^ 4294967296)
         (ChaCha20CSPRNG_new (replicate 32 42) (replicate 12 7)))) ! 12 = 0
   \<and> spec_counter_inc (csp_state ((generateBlock ^^ 4294967296)
         (ChaCha20CSPRNG_new (replicate 32 42) (replicate 12 7)))) ! 13 = 117901064"
proof -
  define g where "g = ChaCha20CSPRNG_new (replicate 32 42) (replicate 12 7)"
  have st: "csp_state g =
     [1634760805, 857760878, 2036477234, 1797285236, 707406378, 707406378,
      707406378, 707406378, 707406378, 707406378, 707406378, 707406378,
      0, 117901063, 117901063, 117901063]"
    unfolding g_def by (rule initState_fill)
  have c: "csp_counter g = 0"
    by (simp add: g_def ChaCha20CSPRNG_new_def)
  have 1: "csp_state (generateBlock g) =
     [1634760805, 857760878, 2036477234, 1797285236, 707406378, 707406378,
      707406378, 707406378, 707406378, 707406378, 707406378, 707406378,
      0, 117901063, 117901063, 117901063]"
    by (simp add: csp_state_generateBlock st c list_update_Cons_numeral)
  have 2: "spec_counter_inc (csp_state g) =
     [1634760805, 857760878, 2036477234, 1797285236, 707406378, 707406378,
      707406378, 707406378, 707406378, 707406378, 707406378, 707406378,
      1, 117901063, 117901063, 117901063]"
    by (simp add: spec_counter_inc_def st list_update_Cons_numeral)
  have 3: "csp_state ((generateBlock ^^ 4294967296) g) =
     [1634760805, 857760878, 2036477234, 1797285236, 707406378, 707406378,
      707406378, 707406378, 707406378, 707406378, 707406378, 707406378,
      4294967295, 117901063, 117901063, 117901063]"
    by (simp add: generateBlock_blocks st c list_update_Cons_numeral)
  have 4: "csp_state ((generateBlock ^^ 4294967297) g) =
     [1634760805, 857760878, 2036477234, 1797285236, 707406378, 707406378,
      707406378, 707406378, 707406378, 707406378, 707406378, 707406378,
      0, 117901063, 117901063, 117901063]"
    by (simp add: generateBlock_blocks st c list_update_Cons_numeral word32_wraps)
  have 5: "spec_counter_inc (csp_state ((generateBlock ^^ 4294967296) g)) =
     [1634760805, 857760878, 2036477234, 1797285236, 707406378, 707406378,
      707406378, 707406378, 707406378, 707406378, 707406378, 707406378,
      0, 117901064, 117901063, 117901063]"
    unfolding 3 by (simp add: spec_counter_inc_def list_update_Cons_numeral)
  show ?thesis
    unfolding g_def [symmetric] 5 unfolding 1 2 3 4 by simp
qed

text \<open>
  C5, amended. The block function of lib/entropy.ts does all that the specification
  says. \<open>generateBlock\<close> of modules/complexity.ts keeps the block counter in a field of
  its own: it writes the counter modulo \<open>2 ^ 32\<close> into word 12, copies the sixteen state
  words, applies the same ten double rounds, adds the state it started from word by word
  modulo \<open>2 ^ 32\<close>, writes the sixteen sums in little-endian order into the 64-byte
  buffer and then increments the counter field. It does not increment word 12 after the
  block and it never changes word 13, a word of the nonce.
\<close>

theorem block_functions_refine_spec:
  assumes "length (cc_state s) = 16" "length (cc_buffer s) = 64"
    and "length (csp_state g) = 16" "length (csp_buffer g) = 64"
  shows "block s = spec_block (cc_state s)
     \<and> generateBlock g =
         \<lparr>csp_state = (csp_state g)[12 := word_of_int (csp_counter g mod 2 ^ 32)],
          csp_counter = csp_counter g + 1,
          csp_buffer = spec_keystream ((csp_state g)[12 := word_of_int (csp_counter g mod 2 ^ 32)]),
          csp_bufferIndex = 0\<rparr>
     \<and> csp_state (generateBlock g) ! 13 = csp_state g ! 13"
proof -
  have m: "(word_of_int (csp_counter g mod 2 ^ 32) :: 32 word) = word_of_int (csp_counter g)"
    by (simp add: word_of_int_eq_iff take_bit_eq_mod)
  have 1: "block s = spec_block (cc_state s)"
    using assms(1,2) by (rule block_spec_block)
  have 2: "generateBlock g =
         \<lparr>csp_state = (csp_state g)[12 := word_of_int (csp_counter g)],
          csp_counter = csp_counter g + 1,
          csp_buffer = spec_keystream ((csp_state g)[12 := word_of_int (csp_counter g)]),
          csp_bufferIndex = 0\<rparr>"
    using assms(3,4) by (rule generateBlock_spec)
  have 3: "csp_state (generateBlock g) ! 13 = csp_state g ! 13"
    by (simp add: csp_state_generateBlock)
  show ?thesis
    unfolding m using 1 2 3 by simp
qed

theorem block_functions_refine_spec_witness:
  "length (cc_state (ChaCha20_new (replicate 32 42) 1700823647937 1700823647937)) = 16
   \<and> length (cc_buffer (ChaCha20_new (replicate 32 42) 1700823647937 1700823647937)) = 64
   \<and> length (csp_state (ChaCha20CSPRNG_new (replicate 32 42) (replicate 12 7))) = 16
   \<and> length (csp_buffer (ChaCha20CSPRNG_new (replicate 32 42) (replicate 12 7))) = 64
   \<and> block (ChaCha20_new (replicate 32 42) 1700823647937 1700823647937) =
       spec_block (cc_state (ChaCha20_new (replicate 32 42) 1700823647937 1700823647937))
   \<and> generateBlock (ChaCha20CSPRNG_new (replicate 32 42) (replicate 12 7)) =
       \<lparr>csp_state = csp_state (ChaCha20CSPRNG_new (replicate 32 42) (replicate 12 7)),
        csp_counter = 1,
        csp_buffer = spec_keystream (csp_state (ChaCha20CSPRNG_new (replicate 32 42) (replicate 12 7))),
        csp_bufferIndex = 0\<rparr>"
proof -
  have l: "length (csp_state (ChaCha20CSPRNG_new (replicate 32 42) (replicate 12 7))) = 16"
    by (simp add: initState_fill)
  have b: "length (csp_buffer (ChaCha20CSPRNG_new (replicate 32 42) (replicate 12 7))) = 64"
    "csp_counter (ChaCha20CSPRNG_new (replicate 32 42) (replicate 12 7)) = 0"
    by (simp_all add: ChaCha20CSPRNG_new_def)
  have u: "(csp_state (ChaCha20CSPRNG_new (replicate 32 42) (replicate 12 7)))[12 := 0] =
      csp_state (ChaCha20CSPRNG_new (replicate 32 42) (replicate 12 7))"
    by (simp add: initState_fill list_update_Cons_numeral)
  show ?thesis
    using block_functions_refine_spec [of "ChaCha20_new (replicate 32 42) 1700823647937 1700823647937"
        "ChaCha20CSPRNG_new (replicate 32 42) (replicate 12 7)"] l b u
    by (simp add: ChaCha20_new_def)
qed

subsection \<open>The first number drawn from a new generator\<close>

lemma le_bytes_recombine:
  "ucast (ucast (w AND 0xFF) :: 8 word) OR push_bit 8 (ucast (ucast (drop_bit 8 w AND 0xFF) :: 8 word))
     OR push_bit 16 (ucast (ucast (drop_bit 16 w AND 0xFF) :: 8 word))
     OR push_bit 24 (ucast (ucast (drop_bit 24 w AND 0xFF) :: 8 word)) = w"
  for w :: "32 word"
proof -
  have m: "(0xFF :: 32 word) = mask 8"
    by (simp add: mask_eq_exp_minus_1)
  show ?thesis
    unfolding m
  proof (rule bit_word_eqI)
    fix n
    assume "n < LENGTH(32)"
    then have n: "n < 32" by simp
    let ?l = "(ucast (ucast (w AND mask 8) :: 8 word) :: 32 word) OR push_bit 8 (ucast (ucast (drop_bit 8 w AND mask 8) :: 8 word))
     OR push_bit 16 (ucast (ucast (drop_bit 16 w AND mask 8) :: 8 word))
     OR push_bit 24 (ucast (ucast (drop_bit 24 w AND mask 8) :: 8 word))"
    consider "n < 8" | "8 \<le> n" "n < 16" | "16 \<le> n" "n < 24" | "24 \<le> n"
      by linarith
    then show "bit ?l n \<longleftrightarrow> bit w n"
    proof cases
      case 1
      then show ?thesis by (simp add: bit_simps)
    next
      case 2
      then have e: "8 + (n - 8) = n" by simp
      from 2 have "\<not> 16 \<le> n" "\<not> 24 \<le> n" "\<not> n < 8" "n - 8 < 8" by simp_all
      with 2 n show ?thesis by (simp add: bit_simps e)
    next
      case 3
      then have e: "16 + (n - 16) = n" by simp
      from 3 have "\<not> 24 \<le> n" "\<not> n < 8" "8 \<le> n" "\<not> n - 8 < 8" "n - 16 < 8" by simp_all
      with 3 n show ?thesis by (simp add: bit_simps e)
    next
      case 4
      then have e: "24 + (n - 24) = n" by simp
      from 4 n have "\<not> n < 8" "8 \<le> n" "16 \<le> n" "\<not> n - 8 < 8" "\<not> n - 16 < 8" "n - 24 < 8"
        by simp_all
      with 4 n show ?thesis by (simp add: bit_simps e)
    qed
  qed
qed

lemma draw_bytes_4:
  "draw_bytes 4 s =
     (let (b0, s) = nextByte s; (b1, s) = nextByte s; (b2, s) = nextByte s; (b3, s) = nextByte s
      in ([b0, b1, b2, b3], s))"
  by (simp add: numeral_eq_Suc split_def Let_def)

lemma ChaCha20_raw_first:
  assumes "cc_pos s = 64" "length (cc_state s) = 16" "length (cc_buffer s) = 64"
  shows "fst (ChaCha20_raw s) = rounds 10 (cc_state s) ! 0 + cc_state s ! 0"
proof -
  define ws where "ws = map2 (+) (rounds 10 (cc_state s)) (cc_state s)"
  have len: "length ws = 16" using assms by (simp add: ws_def)
  then obtain w0 ws' where ws: "ws = w0 # ws'" by (cases ws) simp_all
  have "ws ! 0 = rounds 10 (cc_state s) ! 0 + cc_state s ! 0"
    using assms by (simp add: ws_def)
  then have w0: "w0 = rounds 10 (cc_state s) ! 0 + cc_state s ! 0"
    by (simp add: ws)
  have "fill_buffer 16 (rounds 10 (cc_state s)) (cc_state s) (cc_buffer s) = concat (map le_bytes ws)"
    unfolding ws_def using assms by (intro fill_buffer_spec) simp_all
  then have buf: "fill_buffer 16 (rounds 10 (cc_state s)) (cc_state s) (cc_buffer s) =
      le_bytes w0 @ concat (map le_bytes ws')"
    by (simp add: ws)
  show ?thesis
    using assms
    by (simp add: ChaCha20_raw_def draw_bytes_4 nextByte_def block_def buf Let_def le_bytes_eq
          le_bytes_recombine w0 [symmetric])
qed

text \<open>
  A generator made from the 32-byte seed \<open>new Uint8Array(32).fill(42)\<close> when
  \<open>Date.now()\<close> is 1700823647937, and one made a millisecond later.
\<close>

lemma ChaCha20_new_fill42:
  "ChaCha20_new (replicate 32 42) 1700823647937 1700823647937 =
     \<lparr>cc_state = [1634760805, 857760878, 2036477234, 1797285236, 707406378, 707406378,
        707406378, 707406378, 707406378, 707406378, 707406378, 707406378, 0, 0, 16598721, 396],
      cc_buffer = replicate 64 0, cc_pos = 64\<rparr>"
  "ChaCha20_new (replicate 32 42) 1700823647938 1700823647938 =
     \<lparr>cc_state = [1634760805, 857760878, 2036477234, 1797285236, 707406378, 707406378,
        707406378, 707406378, 707406378, 707406378, 707406378, 707406378, 0, 0, 16598722, 396],
      cc_buffer = replicate 64 0, cc_pos = 64\<rparr>"
  by (simp_all add: ChaCha20_new_def key_word_def key_byte_def upt_conv_Cons)

lemma rounds_fill42:
  "rounds 10 [1634760805, 857760878, 2036477234, 1797285236, 707406378, 707406378,
        707406378, 707406378, 707406378, 707406378, 707406378, 707406378, 0, 0, 16598721, 396] =
     [2660206490, 3612381402, 4248909446, 2765433850, 3349679179, 4023401285, 270270565,
      3902028475, 2978532137, 1416476996, 3337327347, 2669705160, 3545112655, 2009786148,
      2682684591, 1831365728]"
  by (simp add: ChaCha20_eval cong: let_weak_cong)

lemma rounds_fill42_later:
  "rounds 10 [1634760805, 857760878, 2036477234, 1797285236, 707406378, 707406378,
        707406378, 707406378, 707406378, 707406378, 707406378, 707406378, 0, 0, 16598722, 396] =
     [1741898076, 1826701189, 4229470515, 333139084, 983670272, 2050479406, 4036226547,
      160902315, 2497824241, 451272401, 3442886477, 1780842981, 583108301, 1621174810,
      1345234166, 1965257440]"
  by (simp add: ChaCha20_eval cong: let_weak_cong)

lemma ChaCha20_next_first:
  assumes "cc_pos s = 64" "length (cc_state s) = 16" "length (cc_buffer s) = 64"
  shows "fst (ChaCha20_next s) =
           real_of_int (uint (rounds 10 (cc_state s) ! 0 + cc_state s ! 0)) / 4294967295"
  using ChaCha20_raw_first [OF assms] by (simp add: ChaCha20_next_def split_def)

text \<open>
  C1 (the code departs from it). \<open>next()\<close> divides a 32-bit word by \<open>0xFFFFFFFF\<close>, so
  the word \<open>0xFFFFFFFF\<close> gives exactly 1, which is not below 1, and \<open>nextInt(10)\<close>
  then gives 10. The first number drawn from the generator above is such a case.
\<close>

theorem ChaCha20_next_reaches_one:
  "fst (ChaCha20_next (ChaCha20_new (replicate 32 42) 1700823647937 1700823647937)) = 1
   \<and> (\<exists>g. ChaCha20_nextInt 10 (ChaCha20_new (replicate 32 42) 1700823647937 1700823647937) =
          Inr (10, g))"
proof -
  let ?s = "ChaCha20_new (replicate 32 42) 1700823647937 1700823647937"
  have "fst (ChaCha20_next ?s) =
          real_of_int (uint (rounds 10 (cc_state ?s) ! 0 + cc_state ?s ! 0)) / 4294967295"
    by (rule ChaCha20_next_first) (simp_all add: ChaCha20_new_fill42)
  then have one: "fst (ChaCha20_next ?s) = 1"
    by (simp add: ChaCha20_new_fill42 rounds_fill42)
  then show ?thesis
    by (simp add: ChaCha20_nextInt_def nextInt_of_def split_def)
qed

text \<open>
  C2 (the code departs from it). The constructor puts \<open>Date.now()\<close> into words 14 and
  15 of the state, so the same seed gives another sequence a millisecond later: the
  first numbers drawn already differ.
\<close>

theorem ChaCha20_same_seed_differs:
  "fst (ChaCha20_next (ChaCha20_new (replicate 32 42) 1700823647937 1700823647937)) \<noteq>
   fst (ChaCha20_next (ChaCha20_new (replicate 32 42) 1700823647938 1700823647938))"
proof -
  let ?s = "ChaCha20_new (replicate 32 42) 1700823647937 1700823647937"
  let ?t = "ChaCha20_new (replicate 32 42) 1700823647938 1700823647938"
  have "fst (ChaCha20_next ?s) =
          real_of_int (uint (rounds 10 (cc_state ?s) ! 0 + cc_state ?s ! 0)) / 4294967295"
    by (rule ChaCha20_next_first) (simp_all add: ChaCha20_new_fill42)
  then have s: "fst (ChaCha20_next ?s) = 1"
    by (simp add: ChaCha20_new_fill42 rounds_fill42)
  have "fst (ChaCha20_next ?t) =
          real_of_int (uint (rounds 10 (cc_state ?t) ! 0 + cc_state ?t ! 0)) / 4294967295"
    by (rule ChaCha20_next_first) (simp_all add: ChaCha20_new_fill42)
  then have t: "fst (ChaCha20_next ?t) = 3376658881 / 4294967295"
    by (simp add: ChaCha20_new_fill42 rounds_fill42_later)
  show ?thesis unfolding s t by simp
qed

section \<open>lib/entropy.ts and modules/complexity.ts: the Mersenne Twister\<close>

record MersenneTwister =
  mt :: "32 word list"
  mt_index :: nat

text \<open>
  lib/entropy.ts, \<open>seed\<close>: \<open>mt[i] = ((0x6c078965 * (prev ^ (prev >>> 30))) + i) >>> 0\<close>.
  \<open>prev ^ (prev >>> 30)\<close> is a signed 32-bit value, the product and the sum are
  double-precision operations.
\<close>

definition seed_word :: "32 word \<Rightarrow> nat \<Rightarrow> 32 word" where
  "seed_word prev i =
     word_of_int (ToUint32 (js_add (js_mul 1812433253 (sint (prev XOR drop_bit 30 prev))) (int i)))"

text \<open>
  modules/complexity.ts, \<open>init\<close>: the same product, computed in two 16-bit halves:
  \<open>s = mt[i-1] ^ (mt[i-1] >>> 30);
  mt[i] = (((((s & 0xffff0000) >>> 16) * 1812433253) << 16) + (s & 0x0000ffff) * 1812433253 + i) >>> 0\<close>.
\<close>

definition demo_seed_word :: "32 word \<Rightarrow> nat \<Rightarrow> 32 word" where
  "demo_seed_word prev i =
     (let s = prev XOR drop_bit 30 prev;
          hi = ToInt32 (ToInt32 (js_mul (uint (drop_bit 16 (s AND 0xffff0000))) 1812433253) * 65536);
          lo = js_mul (uint (s AND 0x0000ffff)) 1812433253
      in word_of_int (ToUint32 (js_add (js_add hi lo) (int i))))"

text \<open>The loop \<open>for (i = 1; i < 624; i++)\<close> of both, over the step it uses.\<close>

function seed_loop :: "(32 word \<Rightarrow> nat \<Rightarrow> 32 word) \<Rightarrow> nat \<Rightarrow> 32 word list \<Rightarrow> 32 word list" where
  "seed_loop f i m = (if i < 624 then seed_loop f (i + 1) (m[i := f (m ! (i - 1)) i]) else m)"
  by pat_completeness auto
termination
  by (relation "measure (\<lambda>(f, i, m). 624 - i)") auto

declare seed_loop.simps [simp del]

definition seed :: "int \<Rightarrow> MersenneTwister \<Rightarrow> MersenneTwister" where
  "seed s g = g\<lparr>mt := seed_loop seed_word 1 ((mt g)[0 := word_of_int (ToUint32 s)]), mt_index := 624\<rparr>"

definition MersenneTwister_new :: "int \<Rightarrow> MersenneTwister" where
  "MersenneTwister_new s = seed s \<lparr>mt = replicate 624 0, mt_index = 625\<rparr>"

definition demo_init :: "int \<Rightarrow> MersenneTwister \<Rightarrow> MersenneTwister" where
  "demo_init s g =
     g\<lparr>mt := seed_loop demo_seed_word 1 ((mt g)[0 := word_of_int (ToUint32 s)]), mt_index := 624\<rparr>"

definition demo_MersenneTwister_new :: "int \<Rightarrow> MersenneTwister" where
  "demo_MersenneTwister_new s = demo_init s \<lparr>mt = replicate 624 0, mt_index = 625\<rparr>"








subsection \<open>What the seeding loop computes\<close>

lemma length_seed_loop [simp]: "length (seed_loop f i m) = length m"
proof (induction f i m rule: seed_loop.induct)
  case (1 f i m)
  then show ?case by (subst seed_loop.simps) simp
qed

lemma seed_loop_prefix: "k < i \<Longrightarrow> seed_loop f i m ! k = m ! k"
proof (induction f i m rule: seed_loop.induct)
  case (1 f i m)
  show ?case
  proof (cases "i < 624")
    case True
    then have "seed_loop f i m ! k = seed_loop f (i + 1) (m[i := f (m ! (i - 1)) i]) ! k"
      by (subst seed_loop.simps) simp
    also have "\<dots> = (m[i := f (m ! (i - 1)) i]) ! k"
      using "1.IH" [OF True] "1.prems" by simp
    also have "\<dots> = m ! k"
      using "1.prems" by simp
    finally show ?thesis .
  next
    case False
    then show ?thesis by (subst seed_loop.simps) simp
  qed
qed

lemma seed_loop_step:
  assumes "1 \<le> i" "i \<le> k" "k < 624" "k < length m"
  shows "seed_loop f i m ! k = f (seed_loop f i m ! (k - 1)) k"
  using assms
proof (induction f i m rule: seed_loop.induct)
  case (1 f i m)
  let ?m = "m[i := f (m ! (i - 1)) i]"
  have lt: "i < 624" using "1.prems" by simp
  have unf: "seed_loop f i m = seed_loop f (i + 1) ?m"
    using lt by (subst seed_loop.simps) simp
  show ?case
  proof (cases "k = i")
    case True
    have "seed_loop f (i + 1) ?m ! i = ?m ! i"
      by (rule seed_loop_prefix) simp
    moreover have "seed_loop f (i + 1) ?m ! (i - 1) = ?m ! (i - 1)"
      by (rule seed_loop_prefix) (use "1.prems" in simp)
    moreover have "?m ! i = f (m ! (i - 1)) i" "?m ! (i - 1) = m ! (i - 1)"
      using "1.prems" True by simp_all
    ultimately show ?thesis unfolding unf True by simp
  next
    case False
    then have "seed_loop f (i + 1) ?m ! k = f (seed_loop f (i + 1) ?m ! (k - 1)) k"
      using "1.prems" by (intro "1.IH" [OF lt]) simp_all
    then show ?thesis unfolding unf .
  qed
qed

lemma MersenneTwister_new_0: "mt (MersenneTwister_new s) ! 0 = word_of_int s"
  by (simp add: MersenneTwister_new_def seed_def seed_loop_prefix ToUint32_def
        word_of_int_eq_iff take_bit_eq_mod)

lemma MersenneTwister_new_step:
  assumes "1 \<le> k" "k < 624"
  shows "mt (MersenneTwister_new s) ! k = seed_word (mt (MersenneTwister_new s) ! (k - 1)) k"
  using assms by (simp add: MersenneTwister_new_def seed_def seed_loop_step)

lemma seed_word_5489: "seed_word 5489 1 = 1301868182"
  by (simp add: seed_word_def js_mul_def js_add_def round_to_double_def bits.simps ToUint32_def
        Let_def)

lemma seed_word_1301868182: "seed_word 1301868182 2 = 2938499072"
  by (simp add: seed_word_def js_mul_def js_add_def round_to_double_def bits.simps ToUint32_def
        Let_def)

text \<open>
  C3 (the code departs from it). In lib/entropy.ts the product
  \<open>0x6c078965 * (prev ^ (prev >>> 30))\<close> is a double-precision product; it exceeds
  \<open>2 ^ 53\<close> for most values and loses its low bits. For seed 5489 the word \<open>mt[1]\<close> is
  still the one of the reference implementation, 1301868182, but \<open>mt[2]\<close> is 2938499072,
  where the recurrence in 32-bit arithmetic gives 2938499221.
\<close>

theorem MersenneTwister_seed_5489_inexact:
  "mt (MersenneTwister_new 5489) ! 0 = 5489
   \<and> mt (MersenneTwister_new 5489) ! 1 = 1301868182
   \<and> mt (MersenneTwister_new 5489) ! 2 = 2938499072
   \<and> (1812433253 * (1301868182 XOR drop_bit 30 1301868182) + 2 :: 32 word) = 2938499221"
proof -
  have 0: "mt (MersenneTwister_new 5489) ! 0 = 5489"
    by (simp add: MersenneTwister_new_0)
  have 1: "mt (MersenneTwister_new 5489) ! 1 = 1301868182"
    using MersenneTwister_new_step [of 1 5489] seed_word_5489 by (simp add: 0)
  have 2: "mt (MersenneTwister_new 5489) ! 2 = 2938499072"
    using MersenneTwister_new_step [of 2 5489] seed_word_1301868182 1 by simp
  have 3: "(1812433253 * (1301868182 XOR drop_bit 30 1301868182) + 2 :: 32 word) = 2938499221"
    by simp
  show ?thesis using 0 1 2 3 by simp
qed

subsection \<open>modules/complexity.ts computes the seeding recurrence exactly\<close>

lemma word_of_int_ToUint32: "(word_of_int (ToUint32 x) :: 32 word) = word_of_int x"
  by (simp add: ToUint32_def word_of_int_eq_iff take_bit_eq_mod)

lemma word_of_int_ToInt32: "(word_of_int (ToInt32 x) :: 32 word) = word_of_int x"
proof -
  have "((x + 2 ^ 31) mod 2 ^ 32 - 2 ^ 31) mod 2 ^ 32 = x mod (2 ^ 32 :: int)"
    by (simp add: mod_diff_left_eq)
  then have "take_bit LENGTH(32) (ToInt32 x) = take_bit LENGTH(32) x"
    by (simp add: ToInt32_def take_bit_eq_mod)
  then show ?thesis
    unfolding word_of_int_eq_iff .
qed

lemma ToInt32_bound: "\<bar>ToInt32 x\<bar> \<le> 2147483648"
proof -
  have "0 \<le> (x + 2 ^ 31) mod 2 ^ 32" "(x + 2 ^ 31) mod 2 ^ 32 < (2 ^ 32 :: int)"
    by simp_all
  then show ?thesis by (simp add: ToInt32_def)
qed

lemma split_halves:
  "drop_bit 16 (s AND 0xffff0000) * 65536 + (s AND 0x0000ffff) = s" for s :: "32 word"
proof -
  have a: "(0xffff0000 :: 32 word) = NOT (mask 16)" "(0x0000ffff :: 32 word) = mask 16"
    by (simp_all add: mask_eq_exp_minus_1)
  have "drop_bit 16 (s AND NOT (mask 16)) = drop_bit 16 s"
    by (rule bit_word_eqI) (auto simp: bit_simps dest: bit_imp_le_length)
  moreover have "s AND mask 16 = take_bit 16 s"
    by (simp add: take_bit_eq_mask)
  moreover have "push_bit 16 (drop_bit 16 s) + take_bit 16 s = s"
    by (rule bits_ident)
  ultimately show ?thesis
    unfolding a by (simp add: push_bit_eq_mult)
qed

lemma half_bounds:
  fixes s :: "32 word"
  shows "uint (drop_bit 16 (s AND 0xffff0000)) < 65536" "uint (s AND 0x0000ffff) < 65536"
proof -
  have "uint (drop_bit 16 (s AND 0xffff0000)) =
          drop_bit 16 (take_bit LENGTH(32) (uint (s AND 0xffff0000)))"
    by (rule unsigned_drop_bit_eq)
  also have "\<dots> = uint (s AND 0xffff0000) div 2 ^ 16"
    using uint_lt2p [of "s AND 0xffff0000"] by (simp add: drop_bit_eq_div take_bit_eq_mod)
  finally have "uint (drop_bit 16 (s AND 0xffff0000)) = uint (s AND 0xffff0000) div 2 ^ 16" .
  moreover have "uint (s AND 0xffff0000) < 2 ^ 32"
    using uint_lt2p [of "s AND 0xffff0000"] by simp
  ultimately show "uint (drop_bit 16 (s AND 0xffff0000)) < 65536"
    by simp
  have "s AND 0x0000ffff \<le> 0x0000ffff"
    by (rule word_and_le1)
  then show "uint (s AND 0x0000ffff) < 65536"
    by (simp add: word_le_def)
qed

lemma demo_seed_word_exact:
  assumes "i < 624"
  shows "demo_seed_word prev i = 1812433253 * (prev XOR drop_bit 30 prev) + word_of_nat i"
proof -
  define s where "s = prev XOR drop_bit 30 prev"
  define h where "h = uint (drop_bit 16 (s AND 0xffff0000))"
  define l where "l = uint (s AND 0x0000ffff)"
  define T where "T = ToInt32 (ToInt32 (h * 1812433253) * 65536)"
  have hb: "0 \<le> h" "h < 65536" and lb: "0 \<le> l" "l < 65536"
    using half_bounds [of s] by (simp_all add: h_def l_def)
  have hk: "0 \<le> h * 1812433253" "h * 1812433253 < 65536 * 1812433253"
    using hb by simp_all
  have lk: "0 \<le> l * 1812433253" "l * 1812433253 < 65536 * 1812433253"
    using lb by simp_all
  have m1: "js_mul h 1812433253 = h * 1812433253"
    unfolding js_mul_def using hk by (intro round_to_double_exact) simp
  have m2: "js_mul l 1812433253 = l * 1812433253"
    unfolding js_mul_def using lk by (intro round_to_double_exact) simp
  have Tb: "\<bar>T\<bar> \<le> 2147483648"
    unfolding T_def by (rule ToInt32_bound)
  have a1: "js_add T (l * 1812433253) = T + l * 1812433253"
    unfolding js_add_def using Tb lk by (intro round_to_double_exact) simp
  have a2: "js_add (T + l * 1812433253) (int i) = T + l * 1812433253 + int i"
    unfolding js_add_def using Tb lk assms by (intro round_to_double_exact) simp
  have "demo_seed_word prev i = word_of_int (T + l * 1812433253 + int i)"
    by (simp only: demo_seed_word_def Let_def s_def [symmetric] h_def [symmetric]
          l_def [symmetric] m1 m2 T_def [symmetric] a1 a2 word_of_int_ToUint32)
  also have "\<dots> = word_of_int T + word_of_int l * 1812433253 + word_of_nat i"
    by simp
  also have "(word_of_int T :: 32 word) = word_of_int h * 1812433253 * 65536"
    by (simp add: T_def word_of_int_ToInt32)
  also have "(word_of_int h :: 32 word) = drop_bit 16 (s AND 0xffff0000)"
    by (simp add: h_def)
  also have "(word_of_int l :: 32 word) = s AND 0x0000ffff"
    by (simp add: l_def)
  finally have "demo_seed_word prev i =
      1812433253 * (drop_bit 16 (s AND 0xffff0000) * 65536 + (s AND 0x0000ffff)) + word_of_nat i"
    by (simp add: algebra_simps)
  then show ?thesis
    by (simp only: split_halves s_def)
qed

lemma demo_MersenneTwister_new_recurrence:
  "mt (demo_MersenneTwister_new s) ! 0 = word_of_int s"
  "1 \<le> k \<Longrightarrow> k < 624 \<Longrightarrow>
     mt (demo_MersenneTwister_new s) ! k =
       1812433253 * (mt (demo_MersenneTwister_new s) ! (k - 1)
                      XOR drop_bit 30 (mt (demo_MersenneTwister_new s) ! (k - 1))) + word_of_nat k"
  by (simp_all add: demo_MersenneTwister_new_def demo_init_def seed_loop_prefix seed_loop_step
        demo_seed_word_exact word_of_int_ToUint32)

section \<open>lib/entropy.ts: XorShift128+\<close>

text \<open>The state is two \<open>bigint\<close> values, kept below \<open>2 ^ 64\<close> by explicit masks.\<close>

record XorShift128Plus =
  xs_s0 :: int
  xs_s1 :: int

definition mask64 :: int where
  "mask64 = 0xFFFFFFFFFFFFFFFF"

definition XorShift128Plus_new :: "int \<Rightarrow> XorShift128Plus" where
  "XorShift128Plus_new s =
     (let s0 = s AND mask64;
          s1 = (s * 0x5851F42D4C957F2D) AND mask64
      in \<lparr>xs_s0 = (if s0 = 0 then 1 else s0), xs_s1 = (if s1 = 0 then 1 else s1)\<rparr>)"




section \<open>Arguments that the specification calls invalid\<close>

lemma nextInt_of_Inr: "\<not> isl (nextInt_of nxt k g)"
  by (simp add: nextInt_of_def split_def Let_def)




text \<open>The allocation of the four bytes that \<open>ChaCha20.next\<close> asks for.\<close>

lemma ChaCha20_nextBytes_4:
  assumes "4 \<le> cap"
  shows "ChaCha20_nextBytes cap 4 s = Inr (draw_bytes 4 s)"
  using assms by (simp add: ChaCha20_nextBytes_def alloc_fails_def maxIndex_def)



section \<open>lib/entropy.ts: the statistical tests\<close>

text \<open>
  The samples are modelled as reals, and so are the statistics computed from them. Where
  JavaScript would compute \<open>NaN\<close> or an infinity (a division by zero), the model says
  so explicitly, because every comparison with \<open>NaN\<close> is false.
\<close>

record chi_result =
  chi_statistic :: "real option"
  chi_pass :: bool

definition bucket_of :: "nat \<Rightarrow> real \<Rightarrow> int" where
  "bucket_of buckets v = min \<lfloor>v * real buckets\<rfloor> (int buckets - 1)"

text \<open>
  \<open>for (const v of data) counts[bucket]++\<close>. A negative \<open>bucket\<close> names a property of
  the array, not an element, and \<open>reduce\<close> does not see it.
\<close>

fun count_loop :: "nat \<Rightarrow> real list \<Rightarrow> nat list \<Rightarrow> nat list" where
  "count_loop buckets [] counts = counts"
| "count_loop buckets (v # vs) counts =
     (let bucket = bucket_of buckets v
      in count_loop buckets vs
           (if 0 \<le> bucket then counts[nat bucket := counts ! nat bucket + 1] else counts))"

text \<open>
  With no data and at least one bucket \<open>expected\<close> is 0 and every term of the sum is
  \<open>0 / 0\<close>: the statistic is \<open>NaN\<close> (\<open>None\<close>) and \<open>pass\<close> is false.
\<close>

definition chiSquare :: "real list \<Rightarrow> nat \<Rightarrow> chi_result" where
  "chiSquare data buckets =
     (let counts = count_loop buckets data (replicate buckets 0);
          expected = real (length data) / real buckets;
          statistic = foldl (\<lambda>sum c. sum + (real c - expected)\<^sup>2 / expected) 0 counts;
          criticalValue = 16.92
      in if data = [] \<and> 0 < buckets then \<lparr>chi_statistic = None, chi_pass = False\<rparr>
         else \<lparr>chi_statistic = Some statistic, chi_pass = (statistic < criticalValue)\<rparr>)"

record runs_result =
  runs_count :: nat
  runs_expected :: real
  runs_pass :: bool

text \<open>The loop that counts the places where the sign changes, starting from 1.\<close>

fun count_runs :: "bool list \<Rightarrow> nat" where
  "count_runs (a # b # signs) = (if b \<noteq> a then 1 else 0) + count_runs (b # signs)"
| "count_runs signs = 1"

text \<open>
  The median is element \<open>\<lfloor>n / 2\<rfloor>\<close> of the sorted copy (not used when there is no data).
  When the variance is 0 or undefined (fewer than two samples, all samples on one side,
  or one sample on each side) \<open>z\<close> is \<open>NaN\<close> or infinite and \<open>pass\<close> is false.
\<close>

definition runsTest :: "real list \<Rightarrow> runs_result" where
  "runsTest data =
     (let median = sort data ! (length data div 2);
          signs = map (\<lambda>x. median \<le> x) data;
          runs = count_runs signs;
          n1 = real (length (filter (\<lambda>s. s) signs));
          n2 = real (length (filter (\<lambda>s. \<not> s) signs));
          expected = (2 * n1 * n2) / (n1 + n2) + 1;
          variance = (2 * n1 * n2 * (2 * n1 * n2 - n1 - n2)) / ((n1 + n2)\<^sup>2 * (n1 + n2 - 1));
          z = \<bar>real runs - expected\<bar> / sqrt variance
      in \<lparr>runs_count = runs, runs_expected = expected, runs_pass = (0 < variance \<and> z < 1.96)\<rparr>)"

fun freq_loop :: "8 word list \<Rightarrow> nat list \<Rightarrow> nat list" where
  "freq_loop [] freq = freq"
| "freq_loop (byte # bytes) freq = freq_loop bytes (freq[unat byte := freq ! unat byte + 1])"

definition entropy :: "8 word list \<Rightarrow> real" where
  "entropy data =
     foldl (\<lambda>h f. if 0 < f
                   then h - (real f / real (length data)) * log 2 (real f / real (length data))
                   else h)
       0 (freq_loop data (replicate 256 0))"

record assessment =
  score :: nat
  quality :: string

definition assess :: "real list \<Rightarrow> assessment" where
  "assess data =
     (let chi = chiSquare data 10;
          runs = runsTest data;
          bytes = map (\<lambda>d. word_of_int \<lfloor>d * 256\<rfloor> :: 8 word) data;
          ent = entropy bytes;
          score = (if chi_pass chi then 33 else 0) + (if runs_pass runs then 33 else 0)
                  + (if 7.5 < ent then 34 else if 6.5 < ent then 17 else 0)
      in \<lparr>score = score,
          quality = (if 90 \<le> score then ''excellent'' else if 70 \<le> score then ''good''
                     else if 50 \<le> score then ''fair'' else ''poor'')\<rparr>)"

subsection \<open>What depends on the order of the samples\<close>

lemma length_filter_mset:
  assumes "mset p = mset d"
  shows "length (filter P p) = length (filter P d)"
proof -
  have "mset (filter P p) = filter_mset P (mset p)" "mset (filter P d) = filter_mset P (mset d)"
    by simp_all
  with assms have "mset (filter P p) = mset (filter P d)" by simp
  then show ?thesis by (rule mset_eq_length)
qed

lemma length_count_loop [simp]: "length (count_loop b data counts) = length counts"
  by (induction data arbitrary: counts) (simp_all add: Let_def)

lemma count_loop_nth:
  assumes "k < length counts" "length counts = b"
  shows "count_loop b data counts ! k =
           counts ! k + length (filter (\<lambda>v. bucket_of b v = int k) data)"
  using assms
proof (induction data arbitrary: counts)
  case Nil
  show ?case by simp
next
  case (Cons v vs)
  have ub: "bucket_of b v < int b"
    by (simp add: bucket_of_def min_def)
  show ?case
  proof (cases "0 \<le> bucket_of b v")
    case True
    then have n: "nat (bucket_of b v) < length counts"
      using ub Cons.prems by simp
    have e: "(bucket_of b v = int k) = (nat (bucket_of b v) = k)"
      using True by auto
    show ?thesis
      using Cons.prems True n
      by (simp add: Let_def Cons.IH e nth_list_update)
  next
    case False
    then have "bucket_of b v \<noteq> int k" by simp
    with False show ?thesis
      using Cons.prems by (simp add: Let_def Cons.IH)
  qed
qed

lemma count_loop_eq:
  "count_loop b data (replicate b 0) =
     map (\<lambda>k. length (filter (\<lambda>v. bucket_of b v = int k) data)) [0..<b]"
  by (rule nth_equalityI) (simp_all add: count_loop_nth)

lemma chiSquare_mset:
  assumes "mset p = mset d"
  shows "chiSquare p b = chiSquare d b"
proof -
  have l: "length p = length d" using assms by (rule mset_eq_length)
  have e: "(p = []) = (d = [])" using l by auto
  have "count_loop b p (replicate b 0) = count_loop b d (replicate b 0)"
    by (simp add: count_loop_eq length_filter_mset [OF assms])
  then show ?thesis
    by (simp add: chiSquare_def l e)
qed

lemma length_freq_loop [simp]: "length (freq_loop bytes freq) = length freq"
  by (induction bytes arbitrary: freq) simp_all

lemma freq_loop_nth:
  assumes "k < length freq" "length freq = 256"
  shows "freq_loop bytes freq ! k = freq ! k + length (filter (\<lambda>b. unat b = k) bytes)"
  using assms
proof (induction bytes arbitrary: freq)
  case Nil
  show ?case by simp
next
  case (Cons b bs)
  have "unat b < 2 ^ LENGTH(8)" by (rule unsigned_less)
  then have "unat b < length freq" using Cons.prems by simp
  then show ?case
    using Cons.prems by (simp add: Cons.IH nth_list_update)
qed

lemma freq_loop_eq:
  "freq_loop bytes (replicate 256 0) = map (\<lambda>k. length (filter (\<lambda>b. unat b = k) bytes)) [0..<256]"
  by (rule nth_equalityI) (simp_all add: freq_loop_nth)

lemma entropy_mset:
  assumes "mset p = mset d"
  shows "entropy p = entropy d"
proof -
  have l: "length p = length d" using assms by (rule mset_eq_length)
  show ?thesis
    by (simp only: entropy_def freq_loop_eq length_filter_mset [OF assms] l)
qed

lemma sort_mset:
  assumes "mset p = mset (d :: real list)"
  shows "sort p = sort d"
  by (rule properties_for_sort) (simp_all add: assms)

lemma runsTest_mset:
  assumes "mset p = mset d"
  shows "runs_expected (runsTest p) = runs_expected (runsTest d)"
    and "count_runs (map (\<lambda>x. sort p ! (length p div 2) \<le> x) p) =
         count_runs (map (\<lambda>x. sort d ! (length d div 2) \<le> x) d) \<Longrightarrow>
           runsTest p = runsTest d"
proof -
  have l: "length p = length d" using assms by (rule mset_eq_length)
  have s: "sort p = sort d" using assms by (rule sort_mset)
  have f: "length (filter Q p) = length (filter Q d)" for Q
    by (rule length_filter_mset [OF assms])
  show "runs_expected (runsTest p) = runs_expected (runsTest d)"
    by (simp add: runsTest_def Let_def l s f)
  show "runsTest p = runsTest d"
    if "count_runs (map (\<lambda>x. sort p ! (length p div 2) \<le> x) p) =
         count_runs (map (\<lambda>x. sort d ! (length d div 2) \<le> x) d)"
    using that by (simp add: runsTest_def Let_def l s f)
qed

lemma assess_mset:
  assumes "mset p = mset d"
  shows "score (assess p) + (if runs_pass (runsTest d) then 33 else 0) =
         score (assess d) + (if runs_pass (runsTest p) then 33 else 0)"
proof -
  have b: "mset (map (\<lambda>d. word_of_int \<lfloor>d * 256\<rfloor> :: 8 word) p) =
           mset (map (\<lambda>d. word_of_int \<lfloor>d * 256\<rfloor> :: 8 word) d)"
    using assms by simp
  show ?thesis
    by (simp add: assess_def Let_def chiSquare_mset [OF assms] entropy_mset [OF b])
qed

subsection \<open>Two orders of the same eight samples\<close>

lemma count_loop_eight:
  "count_loop 10 [1/16, 1/8, 1/4, 3/8, 1/2, 5/8, 3/4, 7/8] (replicate 10 0) =
     [1, 1, 1, 1, 0, 1, 1, 1, 1, 0]"
  by (simp add: count_loop_eq bucket_of_def upt_conv_Cons)

lemma chiSquare_eight:
  "chi_pass (chiSquare [1/16, 1/8, 1/4, 3/8, 1/2, 5/8, 3/4, 7/8] 10)"
  by (simp add: chiSquare_def count_loop_eight Let_def power2_eq_square del: count_loop.simps)

lemma runsTest_sorted:
  "\<not> runs_pass (runsTest [1/16, 1/8, 1/4, 3/8, 1/2, 5/8, 3/4, 7/8])"
proof -
  have s: "sort [1/16, 1/8, 1/4, 3/8, 1/2, 5/8, 3/4, 7/8 :: real] =
             [1/16, 1/8, 1/4, 3/8, 1/2, 5/8, 3/4, 7/8]"
    by (rule sorted_sort_id) simp
  have "sqrt (12 / 7) \<le> 75 / 49"
    by (rule real_le_lsqrt) (simp_all add: power2_eq_square)
  moreover have "0 < sqrt (12 / 7 :: real)" by simp
  ultimately have "49 / 25 \<le> 3 / sqrt (12 / 7)"
    by (simp add: field_simps)
  then show ?thesis
    by (simp add: runsTest_def s Let_def power2_eq_square cong: let_weak_cong)
qed

lemma runsTest_shuffled:
  "runs_pass (runsTest [1/16, 1/2, 1/8, 5/8, 3/4, 7/8, 1/4, 3/8])"
proof -
  have "mset [1/16, 1/2, 1/8, 5/8, 3/4, 7/8, 1/4, 3/8 :: real] =
        mset [1/16, 1/8, 1/4, 3/8, 1/2, 5/8, 3/4, 7/8]"
    by simp
  then have s: "sort [1/16, 1/2, 1/8, 5/8, 3/4, 7/8, 1/4, 3/8 :: real] =
             [1/16, 1/8, 1/4, 3/8, 1/2, 5/8, 3/4, 7/8]"
    by (intro properties_for_sort) simp_all
  show ?thesis
    by (simp add: runsTest_def s Let_def power2_eq_square cong: let_weak_cong)
qed

lemma runsTest_reshuffled:
  "runs_pass (runsTest [1/2, 1/16, 5/8, 1/8, 1/4, 3/8, 3/4, 7/8])"
proof -
  have "mset [1/2, 1/16, 5/8, 1/8, 1/4, 3/8, 3/4, 7/8 :: real] =
        mset [1/16, 1/8, 1/4, 3/8, 1/2, 5/8, 3/4, 7/8]"
    by simp
  then have s: "sort [1/2, 1/16, 5/8, 1/8, 1/4, 3/8, 3/4, 7/8 :: real] =
             [1/16, 1/8, 1/4, 3/8, 1/2, 5/8, 3/4, 7/8]"
    by (intro properties_for_sort) simp_all
  show ?thesis
    by (simp add: runsTest_def s Let_def power2_eq_square cong: let_weak_cong)
qed

text \<open>The entropy of a sequence of distinct bytes is the logarithm of its length.\<close>

lemma foldl_entropy_step:
  "foldl (\<lambda>h f. if 0 < f then h - t f else h) h0 fs =
     h0 - sum_list (map (\<lambda>f. if 0 < f then t f else 0) fs)"
  for t :: "nat \<Rightarrow> real"
  by (induction fs arbitrary: h0) simp_all

lemma count_distinct_bytes:
  assumes "distinct bytes"
  shows "length (filter (\<lambda>b. unat b = k) bytes) = (if k \<in> unat ` set bytes then 1 else 0)"
  using assms by (induction bytes) (auto simp: filter_empty_conv word_unat_eq_iff [symmetric])

lemma entropy_distinct:
  assumes "distinct bytes" "bytes \<noteq> []"
  shows "entropy bytes = log 2 (real (length bytes))"
proof -
  define n where "n = real (length bytes)"
  define S where "S = unat ` set bytes"
  have n: "0 < n" using assms by (simp add: n_def)
  have sub: "S \<subseteq> {0..<256}"
  proof
    fix k assume "k \<in> S"
    then obtain b :: "8 word" where "k = unat b" by (auto simp: S_def)
    moreover have "unat b < 2 ^ LENGTH(8)" by (rule unsigned_less)
    ultimately show "k \<in> {0..<256}" by simp
  qed
  have "inj_on (unat :: 8 word \<Rightarrow> nat) (set bytes)"
    by (rule inj_onI) (simp add: unsigned_word_eqI)
  then have card: "card S = length bytes"
    using assms by (simp add: S_def card_image distinct_card)
  have m: "map (\<lambda>f. if 0 < f then (real f / n) * log 2 (real f / n) else 0)
          (map (\<lambda>k. length (filter (\<lambda>b. unat b = k) bytes)) [0..<256]) =
        map (\<lambda>k. if k \<in> S then (1 / n) * log 2 (1 / n) else 0) [0..<256]"
    unfolding map_map
    by (rule map_cong [OF refl]) (simp add: count_distinct_bytes [OF assms(1)] S_def)
  have "entropy bytes = 0 - sum_list (map (\<lambda>f. if 0 < f then (real f / n) * log 2 (real f / n) else 0)
          (map (\<lambda>k. length (filter (\<lambda>b. unat b = k) bytes)) [0..<256]))"
    unfolding entropy_def freq_loop_eq foldl_entropy_step n_def by (rule refl)
  then have "entropy bytes =
      - sum_list (map (\<lambda>k. if k \<in> S then (1 / n) * log 2 (1 / n) else 0) [0..<256])"
    unfolding m by simp
  also have "sum_list (map (\<lambda>k. if k \<in> S then (1 / n) * log 2 (1 / n) else 0) [0..<256]) =
      (\<Sum>k\<in>{0..<256}. if k \<in> S then (1 / n) * log 2 (1 / n) else 0)"
    by (simp add: interv_sum_list_conv_sum_set_nat)
  also have "\<dots> = (\<Sum>k\<in>S. (1 / n) * log 2 (1 / n))"
    using sub by (simp add: sum.inter_restrict [symmetric] Int_absorb1)
  also have "\<dots> = real (card S) * ((1 / n) * log 2 (1 / n))"
    by simp
  also have "\<dots> = log 2 (1 / n)"
    using n by (simp add: card n_def)
  also have "- log 2 (1 / n) = log 2 n"
    using n by (simp add: log_divide)
  finally show ?thesis by (simp add: n_def)
qed

lemma entropy_eight:
  "entropy [16, 32, 64, 96, 128, 160, 192, 224] = 3"
  "entropy [16, 128, 32, 160, 192, 224, 64, 96] = 3"
proof -
  have "log 2 (2 ^ 3) = 3" by (simp only: log_pow_cancel)
  then have "log 2 8 = 3" by simp
  then show "entropy [16, 32, 64, 96, 128, 160, 192, 224] = 3"
    and "entropy [16, 128, 32, 160, 192, 224, 64, 96] = 3"
    by (simp_all add: entropy_distinct)
qed

lemma assess_sorted:
  "assess [1/16, 1/8, 1/4, 3/8, 1/2, 5/8, 3/4, 7/8] = \<lparr>score = 33, quality = ''poor''\<rparr>"
  using chiSquare_eight runsTest_sorted by (simp add: assess_def Let_def entropy_eight)

lemma assess_shuffled:
  "assess [1/16, 1/2, 1/8, 5/8, 3/4, 7/8, 1/4, 3/8] = \<lparr>score = 66, quality = ''fair''\<rparr>"
proof -
  have m: "mset [1/16, 1/2, 1/8, 5/8, 3/4, 7/8, 1/4, 3/8 :: real] =
     mset [1/16, 1/8, 1/4, 3/8, 1/2, 5/8, 3/4, 7/8]"
    by simp
  have c: "chi_pass (chiSquare [1/16, 1/2, 1/8, 5/8, 3/4, 7/8, 1/4, 3/8] 10)"
    using chiSquare_eight by (simp only: chiSquare_mset [OF m])
  show ?thesis
    using c runsTest_shuffled by (simp add: assess_def Let_def entropy_eight)
qed

text \<open>
  C7 as the specification states it does not hold. The eight samples below, in
  increasing order, fail the runs test (two runs where five are expected); in another
  order they pass it. The chi-square test passes and the entropy is 3 bits in both
  orders, so the scores are 33 and 66 and the labels differ.
\<close>

theorem assess_depends_on_order:
  "mset [1/16, 1/2, 1/8, 5/8, 3/4, 7/8, 1/4, 3/8 :: real] =
     mset [1/16, 1/8, 1/4, 3/8, 1/2, 5/8, 3/4, 7/8]
   \<and> assess [1/16, 1/8, 1/4, 3/8, 1/2, 5/8, 3/4, 7/8] = \<lparr>score = 33, quality = ''poor''\<rparr>
   \<and> assess [1/16, 1/2, 1/8, 5/8, 3/4, 7/8, 1/4, 3/8] = \<lparr>score = 66, quality = ''fair''\<rparr>"
proof -
  have m: "mset [1/16, 1/2, 1/8, 5/8, 3/4, 7/8, 1/4, 3/8 :: real] =
     mset [1/16, 1/8, 1/4, 3/8, 1/2, 5/8, 3/4, 7/8]"
    by simp
  show ?thesis using m by (simp only: assess_sorted assess_shuffled simp_thms)
qed

text \<open>
  C7, amended. For every input and every permutation of it, the chi-square result, the
  entropy of the derived bytes and the expected number of runs are the same; the score
  changes only through the verdict of the runs test, which counts the runs in the given
  order. So \<open>assess\<close> returns the same score and label on both whenever the runs test
  gives the same verdict on both.
\<close>

theorem assess_permutation:
  assumes "mset p = mset d"
  shows "chiSquare p 10 = chiSquare d 10
     \<and> entropy (map (\<lambda>x. word_of_int \<lfloor>x * 256\<rfloor>) p) = entropy (map (\<lambda>x. word_of_int \<lfloor>x * 256\<rfloor>) d)
     \<and> runs_expected (runsTest p) = runs_expected (runsTest d)
     \<and> score (assess p) + (if runs_pass (runsTest d) then 33 else 0) =
         score (assess d) + (if runs_pass (runsTest p) then 33 else 0)
     \<and> (runs_pass (runsTest p) = runs_pass (runsTest d) \<longrightarrow> assess p = assess d)"
proof -
  have b: "mset (map (\<lambda>x. word_of_int \<lfloor>x * 256\<rfloor> :: 8 word) p) =
           mset (map (\<lambda>x. word_of_int \<lfloor>x * 256\<rfloor> :: 8 word) d)"
    using assms by simp
  have c: "chiSquare p 10 = chiSquare d 10"
    using assms by (rule chiSquare_mset)
  have e: "entropy (map (\<lambda>x. word_of_int \<lfloor>x * 256\<rfloor>) p) = entropy (map (\<lambda>x. word_of_int \<lfloor>x * 256\<rfloor>) d)"
    using b by (rule entropy_mset)
  have r: "runs_expected (runsTest p) = runs_expected (runsTest d)"
    using assms by (rule runsTest_mset)
  have s: "score (assess p) + (if runs_pass (runsTest d) then 33 else 0) =
         score (assess d) + (if runs_pass (runsTest p) then 33 else 0)"
    using assms by (rule assess_mset)
  have a: "runs_pass (runsTest p) = runs_pass (runsTest d) \<longrightarrow> assess p = assess d"
    by (simp add: assess_def Let_def c e)
  show ?thesis using c e r s a by simp
qed

theorem assess_permutation_witness:
  "mset [1/2, 1/16, 5/8, 1/8, 1/4, 3/8, 3/4, 7/8 :: real] =
     mset [1/16, 1/2, 1/8, 5/8, 3/4, 7/8, 1/4, 3/8]
   \<and> runs_pass (runsTest [1/2, 1/16, 5/8, 1/8, 1/4, 3/8, 3/4, 7/8])
   \<and> runs_pass (runsTest [1/16, 1/2, 1/8, 5/8, 3/4, 7/8, 1/4, 3/8])
   \<and> assess [1/2, 1/16, 5/8, 1/8, 1/4, 3/8, 3/4, 7/8] =
       assess [1/16, 1/2, 1/8, 5/8, 3/4, 7/8, 1/4, 3/8]
   \<and> assess [1/2, 1/16, 5/8, 1/8, 1/4, 3/8, 3/4, 7/8] = \<lparr>score = 66, quality = ''fair''\<rparr>"
proof -
  have m: "mset [1/2, 1/16, 5/8, 1/8, 1/4, 3/8, 3/4, 7/8 :: real] =
     mset [1/16, 1/2, 1/8, 5/8, 3/4, 7/8, 1/4, 3/8]"
    by simp
  show ?thesis
    using assess_permutation [OF m] m runsTest_reshuffled runsTest_shuffled
    by (simp add: assess_shuffled)
qed

section \<open>utils/statistics.ts: the chi-square test over the range of the data\<close>

text \<open>
  Every division of \<open>chiSquareUniformity\<close> and of the functions it calls is written
  with \<open>js_div\<close>, which is \<open>None\<close> when the divisor is 0 (JavaScript goes on with an
  infinity or \<open>NaN\<close>); so a result \<open>Some r\<close> says that no division by zero took place.
\<close>

definition js_div :: "real \<Rightarrow> real \<Rightarrow> real option" where
  "js_div a b = (if b = 0 then None else Some (a / b))"

record uniformity_result =
  u_statistic :: real
  u_pValue :: real
  u_degreesOfFreedom :: int
  u_isRandom :: bool
  u_buckets :: "nat list"
  u_expected :: real

definition normalCDF :: "real \<Rightarrow> real option" where
  "normalCDF x0 =
     do {
       let a1 = 0.254829592;
       let a2 = - 0.284496736;
       let a3 = 1.421413741;
       let a4 = - 1.453152027;
       let a5 = 1.061405429;
       let p = 0.3275911;
       let sign = (if x0 < 0 then - 1 else 1);
       x \<leftarrow> js_div \<bar>x0\<bar> (sqrt 2);
       t \<leftarrow> js_div 1 (1 + p * x);
       let y = 1 - (((((a5 * t + a4) * t) + a3) * t + a2) * t + a1) * t * exp (- x * x);
       Some (0.5 * (1 + sign * y))
     }"

text \<open>\<open>Math.pow(x, 1/3)\<close> is \<open>NaN\<close> for a negative \<open>x\<close>.\<close>

definition chiSquarePValue :: "real \<Rightarrow> int \<Rightarrow> real option" where
  "chiSquarePValue chiSquare_value df =
     (if df \<le> 0 then Some 1
      else do {
        x \<leftarrow> js_div chiSquare_value (real_of_int df);
        cube_root \<leftarrow> (if x < 0 then None else Some (x powr (1 / 3)));
        a \<leftarrow> js_div 2 (9 * real_of_int df);
        let z = cube_root - (1 - a);
        b \<leftarrow> js_div 2 (9 * real_of_int df);
        let denom = sqrt b;
        standardized \<leftarrow> js_div z denom;
        c \<leftarrow> normalCDF standardized;
        Some (1 - c)
      })"

text \<open>\<open>Math.min(...data)\<close> and \<open>Math.max(...data)\<close> of data that is not empty.\<close>

definition list_min :: "real list \<Rightarrow> real" where
  "list_min data = foldl min (hd data) (tl data)"

definition list_max :: "real list \<Rightarrow> real" where
  "list_max data = foldl max (hd data) (tl data)"

text \<open>\<open>const range = max - min || 1\<close>\<close>

definition bin_range :: "real list \<Rightarrow> real" where
  "bin_range data = (let r = list_max data - list_min data in if r = 0 then 1 else r)"

fun fill_buckets :: "real \<Rightarrow> real \<Rightarrow> nat \<Rightarrow> real list \<Rightarrow> nat list \<Rightarrow> nat list option" where
  "fill_buckets mn rng numBuckets [] buckets = Some buckets"
| "fill_buckets mn rng numBuckets (v # rest) buckets =
     do {
       q \<leftarrow> js_div (v - mn) rng;
       let bucketIndex = min \<lfloor>q * real numBuckets\<rfloor> (int numBuckets - 1);
       fill_buckets mn rng numBuckets rest
         (if 0 \<le> bucketIndex then buckets[nat bucketIndex := buckets ! nat bucketIndex + 1]
          else buckets)
     }"

fun sum_terms :: "real \<Rightarrow> nat list \<Rightarrow> real \<Rightarrow> real option" where
  "sum_terms expected [] acc = Some acc"
| "sum_terms expected (observed # rest) acc =
     do {
       t \<leftarrow> js_div ((real observed - expected)\<^sup>2) expected;
       sum_terms expected rest (acc + t)
     }"

text \<open>
  With no data \<open>expected\<close> is 0 and the statistic is \<open>0 / 0\<close>, and the minimum and the
  maximum are infinite: there is no finite result.
\<close>

definition chiSquareUniformity :: "real list \<Rightarrow> nat \<Rightarrow> uniformity_result option" where
  "chiSquareUniformity data numBuckets =
     (if data = [] then None
      else do {
        let mn = list_min data;
        let rng = bin_range data;
        buckets \<leftarrow> fill_buckets mn rng numBuckets data (replicate numBuckets 0);
        expected \<leftarrow> js_div (real (length data)) (real numBuckets);
        statistic \<leftarrow> sum_terms expected buckets 0;
        let degreesOfFreedom = int numBuckets - 1;
        pValue \<leftarrow> chiSquarePValue statistic degreesOfFreedom;
        Some \<lparr>u_statistic = statistic, u_pValue = pValue, u_degreesOfFreedom = degreesOfFreedom,
              u_isRandom = (0.05 < pValue), u_buckets = buckets, u_expected = expected\<rparr>
      })"

subsection \<open>A constant sequence\<close>

lemma foldl_min_replicate: "foldl min c (replicate k c) = (c :: real)"
  by (induction k) simp_all

lemma foldl_max_replicate: "foldl max c (replicate k c) = (c :: real)"
  by (induction k) simp_all

lemma constant_min_max:
  assumes "0 < n"
  shows "list_min (replicate n c) = c" "list_max (replicate n c) = c"
proof -
  obtain k where n: "n = Suc k" using assms by (cases n) simp_all
  show "list_min (replicate n c) = c" "list_max (replicate n c) = c"
    by (simp_all add: n list_min_def list_max_def foldl_min_replicate foldl_max_replicate)
qed

lemma fill_buckets_constant:
  assumes "0 < length buckets" "0 < b"
  shows "fill_buckets c 1 b (replicate k c) buckets = Some (buckets[0 := buckets ! 0 + k])"
  using assms
proof (induction k arbitrary: buckets)
  case 0
  then show ?case by simp
next
  case (Suc k)
  have "fill_buckets c 1 b (replicate (Suc k) c) buckets =
          fill_buckets c 1 b (replicate k c) (buckets[0 := buckets ! 0 + 1])"
    using Suc.prems by (simp add: js_div_def)
  also have "\<dots> = Some ((buckets[0 := buckets ! 0 + 1])[0 := (buckets[0 := buckets ! 0 + 1]) ! 0 + k])"
    using Suc.prems by (intro Suc.IH) simp_all
  finally show ?case using Suc.prems by simp
qed

lemma sum_terms_zeros:
  assumes "e \<noteq> 0"
  shows "sum_terms e (replicate k 0) acc = Some (acc + real k * e)"
  using assms
proof (induction k arbitrary: acc)
  case 0
  show ?case by simp
next
  case (Suc k)
  have "e\<^sup>2 / e = e" using Suc.prems by (simp add: power2_eq_square)
  then show ?case
    using Suc by (simp add: js_div_def algebra_simps)
qed

lemma normalCDF_defined: "\<exists>v. normalCDF x = Some v"
proof -
  define x1 where "x1 = \<bar>x\<bar> / sqrt 2"
  have "0 \<le> x1" by (simp add: x1_def)
  then have "0 \<le> 0.3275911 * x1" by simp
  then have nz: "1 + 0.3275911 * x1 \<noteq> 0" by linarith
  have a: "js_div \<bar>x\<bar> (sqrt 2) = Some x1"
    by (simp add: js_div_def x1_def)
  have b: "js_div 1 (1 + 0.3275911 * x1) = Some (1 / (1 + 0.3275911 * x1))"
    using nz by (simp only: js_div_def if_False)
  show ?thesis
    unfolding normalCDF_def Let_def bind_eq_Some_conv using a b by blast
qed

lemma chiSquarePValue_defined:
  assumes "0 \<le> s"
  shows "\<exists>v. chiSquarePValue s df = Some v"
proof (cases "df \<le> 0")
  case True
  then show ?thesis by (simp add: chiSquarePValue_def)
next
  case False
  then have d: "0 < real_of_int df" by simp
  then have x: "\<not> s / real_of_int df < 0" using assms by (simp add: divide_less_0_iff)
  have "0 < 2 / (9 * real_of_int df)" using d by simp
  then have q: "sqrt (2 / (9 * real_of_int df)) \<noteq> 0" by simp
  obtain v where v: "normalCDF (((s / real_of_int df) powr (1 / 3) - (1 - 2 / (9 * real_of_int df)))
        / sqrt (2 / (9 * real_of_int df))) = Some v"
    using normalCDF_defined by blast
  show ?thesis
    using False d x q v by (simp add: chiSquarePValue_def js_div_def Let_def)
qed

text \<open>
  C8. For every constant sequence that is not empty (all elements equal, as
  \<open>[5, 5, 5, 5, 5]\<close>) and at least one bucket, the bin width is computed with range 1, no
  division of \<open>chiSquareUniformity\<close> has divisor 0, and the call returns a result record:
  all samples in the first bucket and the statistic \<open>N * (buckets - 1)\<close>.
\<close>

theorem chiSquareUniformity_constant:
  assumes "0 < n" "0 < b"
  shows "bin_range (replicate n c) = 1
     \<and> (\<exists>r. chiSquareUniformity (replicate n c) b = Some r
            \<and> u_buckets r = n # replicate (b - 1) 0
            \<and> u_expected r = real n / real b
            \<and> u_statistic r = real n * (real b - 1)
            \<and> u_degreesOfFreedom r = int b - 1
            \<and> u_isRandom r = (0.05 < u_pValue r))"
proof -
  define e where "e = real n / real b"
  define s where "s = real n * (real b - 1)"
  obtain b' where b: "b = Suc b'" using assms by (cases b) simp_all
  have ne: "replicate n c \<noteq> []" using assms by simp
  have mn: "list_min (replicate n c) = c"
    using assms by (simp add: constant_min_max)
  have rng: "bin_range (replicate n c) = 1"
    using assms by (simp add: bin_range_def constant_min_max)
  have "fill_buckets c 1 b (replicate n c) (replicate b 0) = Some ((replicate b 0)[0 := replicate b 0 ! 0 + n])"
    using assms by (intro fill_buckets_constant) simp_all
  then have bk: "fill_buckets c 1 b (replicate n c) (replicate b 0) = Some (n # replicate (b - 1) 0)"
    by (simp add: b)
  have e0: "e \<noteq> 0" using assms by (simp add: e_def)
  have ex: "js_div (real n) (real b) = Some e"
    using assms by (simp add: js_div_def e_def)
  have "sum_terms e (n # replicate (b - 1) 0) 0 = Some ((real n - e)\<^sup>2 / e + real (b - 1) * e)"
    using e0 by (simp add: js_div_def sum_terms_zeros)
  moreover have "(real n - e)\<^sup>2 / e + real (b - 1) * e = s"
  proof -
    have rb: "real (b - 1) = real b - 1" using assms by (simp add: of_nat_diff)
    have "real n - e = e * (real b - 1)"
      using assms by (simp add: e_def field_simps)
    then have a: "(real n - e)\<^sup>2 / e = e * (real b - 1)\<^sup>2"
      using e0 by (simp add: power2_eq_square)
    have "(real n - e)\<^sup>2 / e + real (b - 1) * e = e * (real b - 1)\<^sup>2 + (real b - 1) * e"
      by (simp only: a rb)
    also have "\<dots> = e * (real b - 1) * real b"
      by (simp add: power2_eq_square algebra_simps)
    also have "\<dots> = s"
      using assms by (simp add: e_def s_def)
    finally show ?thesis .
  qed
  ultimately have st: "sum_terms e (n # replicate (b - 1) 0) 0 = Some s"
    by simp
  have "0 \<le> s" using assms by (simp add: s_def)
  then obtain pv where pv: "chiSquarePValue s (int b - 1) = Some pv"
    using chiSquarePValue_defined by blast
  have "chiSquareUniformity (replicate n c) b =
          Some \<lparr>u_statistic = s, u_pValue = pv, u_degreesOfFreedom = int b - 1,
                u_isRandom = (0.05 < pv), u_buckets = n # replicate (b - 1) 0, u_expected = e\<rparr>"
    using ne mn rng bk ex st pv
    by (simp add: chiSquareUniformity_def Let_def del: sum_terms.simps fill_buckets.simps)
  then show ?thesis
    using rng by (simp add: e_def s_def)
qed

theorem chiSquareUniformity_constant_witness:
  "(0::nat) < 5 \<and> (0::nat) < 10 \<and> bin_range (replicate 5 5) = 1
   \<and> (\<exists>r. chiSquareUniformity [5, 5, 5, 5, 5] 10 = Some r
          \<and> u_buckets r = [5, 0, 0, 0, 0, 0, 0, 0, 0, 0]
          \<and> u_expected r = 1 / 2 \<and> u_statistic r = 45)"
  using chiSquareUniformity_constant [of 5 10 5] by (auto simp: numeral_eq_Suc)

end
